theory Spec2Isabelle
  imports Main
begin

section \<open>Strings and the two regular expressions\<close>

text \<open>
  A Python \<open>str\<close> is a sequence of code points. For the addresses that
  \<open>extract_zipcode\<close> reads it is modelled as a \<^typ>\<open>string\<close>, each
  \<^typ>\<open>char\<close> read as one code point below 256. On that range the class \<open>\d\<close> of the
  \<open>re\<close> module (Unicode decimal digits) is the ten ASCII digits, and \<open>\s\<close> (Unicode
  whitespace) is the code points 9 to 13, 28 to 32, 133 and 160. Beyond code point 255 both
  classes have further members, which the model of the addresses does not represent. The
  zip code that the user types is modelled on all code points, further down.
\<close>

text \<open>The class \<open>\d\<close>.\<close>

definition re_digit :: "char \<Rightarrow> bool" where
  "re_digit c = (c \<in> set ''0123456789'')"

text \<open>The class \<open>\s\<close>.\<close>

definition re_space :: "char \<Rightarrow> bool" where
  "re_space c = (of_char c \<in> set [9, 10, 11, 12, 13, 28, 29, 30, 31, 32, 133, 160 :: nat])"

text \<open>The classes \<open>[,\s]\<close> and \<open>[,\s-]\<close> of the pattern of \<open>extract_zipcode\<close>.\<close>

definition lead_class :: "char \<Rightarrow> bool" where
  "lead_class c = (c = CHR '','' \<or> re_space c)"

definition trail_class :: "char \<Rightarrow> bool" where
  "trail_class c = (c = CHR '','' \<or> re_space c \<or> c = CHR ''-'')"

text \<open>\<open>\d{5}\<close> at the start of a string: the five digits matched and the rest.\<close>

fun digits5 :: "string \<Rightarrow> (string \<times> string) option" where
  "digits5 (d1 # d2 # d3 # d4 # d5 # rest) =
     (if re_digit d1 \<and> re_digit d2 \<and> re_digit d3 \<and> re_digit d4 \<and> re_digit d5
      then Some ([d1, d2, d3, d4, d5], rest) else None)"
| "digits5 _ = None"

text \<open>
  The pattern \<^verbatim>\<open>[,\s](\d{5})[,\s-]\<close> tried at the start of a string; the result is group 1.
  The pattern has a fixed length and no alternatives, so there is nothing to backtrack.
\<close>

fun zip_match_at :: "string \<Rightarrow> string option" where
  "zip_match_at [] = None"
| "zip_match_at (a # s) =
     (if lead_class a
      then (case digits5 s of
              None \<Rightarrow> None
            | Some (g, []) \<Rightarrow> None
            | Some (g, b # post) \<Rightarrow> if trail_class b then Some g else None)
      else None)"

text \<open>\<open>re.search\<close>: the match at the leftmost position that has one.\<close>

fun re_search :: "string \<Rightarrow> string option" where
  "re_search [] = None"
| "re_search (c # s) =
     (case zip_match_at (c # s) of Some g \<Rightarrow> Some g | None \<Rightarrow> re_search s)"

text \<open>
  \<open>extract_zipcode\<close> returns group 1 of the match, and \<open>None\<close> when there is none. Its
  \<open>try\<close>/\<open>except\<close> guards against an argument that is not a string (then too the result is
  \<open>None\<close>); on a \<^typ>\<open>string\<close> the search raises nothing.
\<close>

definition extract_zipcode :: "string \<Rightarrow> string option" where
  "extract_zipcode address = re_search address"

section \<open>The zip code that the user types\<close>

text \<open>
  The argument of \<open>verify_zipcode\<close> is the text of the input field, which takes any
  character, so here a \<open>str\<close> is the list of its code points, each a number below
  \<open>0x110000\<close>. The ranges of the decimal digits are those of Unicode 14.0, the table of
  Python 3.11, where \<open>\d\<close> in a \<open>str\<close> pattern matches exactly the characters for which
  \<open>str.isdecimal\<close> holds: the ASCII digits \<open>0x30\<close> to \<open>0x39\<close> first, then among others
  the Arabic-Indic digits from \<open>0x660\<close> and the fullwidth digits from \<open>0xFF10\<close>.
\<close>

definition decimal_ranges :: "(nat \<times> nat) list" where
  "decimal_ranges =
     [(0x0030, 0x0039), (0x0660, 0x0669), (0x06F0, 0x06F9), (0x07C0, 0x07C9),
      (0x0966, 0x096F), (0x09E6, 0x09EF), (0x0A66, 0x0A6F), (0x0AE6, 0x0AEF),
      (0x0B66, 0x0B6F), (0x0BE6, 0x0BEF), (0x0C66, 0x0C6F), (0x0CE6, 0x0CEF),
      (0x0D66, 0x0D6F), (0x0DE6, 0x0DEF), (0x0E50, 0x0E59), (0x0ED0, 0x0ED9),
      (0x0F20, 0x0F29), (0x1040, 0x1049), (0x1090, 0x1099), (0x17E0, 0x17E9),
      (0x1810, 0x1819), (0x1946, 0x194F), (0x19D0, 0x19D9), (0x1A80, 0x1A89),
      (0x1A90, 0x1A99), (0x1B50, 0x1B59), (0x1BB0, 0x1BB9), (0x1C40, 0x1C49),
      (0x1C50, 0x1C59), (0xA620, 0xA629), (0xA8D0, 0xA8D9), (0xA900, 0xA909),
      (0xA9D0, 0xA9D9), (0xA9F0, 0xA9F9), (0xAA50, 0xAA59), (0xABF0, 0xABF9),
      (0xFF10, 0xFF19), (0x104A0, 0x104A9), (0x10D30, 0x10D39), (0x11066, 0x1106F),
      (0x110F0, 0x110F9), (0x11136, 0x1113F), (0x111D0, 0x111D9), (0x112F0, 0x112F9),
      (0x11450, 0x11459), (0x114D0, 0x114D9), (0x11650, 0x11659), (0x116C0, 0x116C9),
      (0x11730, 0x11739), (0x118E0, 0x118E9), (0x11950, 0x11959), (0x11C50, 0x11C59),
      (0x11D50, 0x11D59), (0x11DA0, 0x11DA9), (0x16A60, 0x16A69), (0x16AC0, 0x16AC9),
      (0x16B50, 0x16B59), (0x1D7CE, 0x1D7FF), (0x1E140, 0x1E149), (0x1E2F0, 0x1E2F9),
      (0x1E950, 0x1E959), (0x1FBF0, 0x1FBF9)]"

text \<open>The class \<open>\d\<close> on code points.\<close>

definition uni_digit :: "nat \<Rightarrow> bool" where
  "uni_digit c = list_ex (\<lambda>(lo, hi). lo \<le> c \<and> c \<le> hi) decimal_ranges"

text \<open>\<open>\d{5}\<close> at the start of a list of code points: the five matched and the rest.\<close>

fun uni_digits5 :: "nat list \<Rightarrow> (nat list \<times> nat list) option" where
  "uni_digits5 (d1 # d2 # d3 # d4 # d5 # rest) =
     (if uni_digit d1 \<and> uni_digit d2 \<and> uni_digit d3 \<and> uni_digit d4 \<and> uni_digit d5
      then Some ([d1, d2, d3, d4, d5], rest) else None)"
| "uni_digits5 _ = None"

text \<open>
  \<open>$\<close> without the MULTILINE flag: the end of the string, or just before a line feed that
  is the last character of the string.
\<close>

definition at_dollar :: "nat list \<Rightarrow> bool" where
  "at_dollar rest = (rest = [] \<or> rest = [0x0A])"

text \<open>\<^verbatim>\<open>return bool(re.match(r'^\d{5}$', zipcode))\<close>\<close>

definition verify_zipcode :: "nat list \<Rightarrow> bool" where
  "verify_zipcode zipcode =
     (case uni_digits5 zipcode of None \<Rightarrow> False | Some (g, rest) \<Rightarrow> at_dollar rest)"

text \<open>The code points of a string of characters below 256.\<close>

definition code_points :: "string \<Rightarrow> nat list" where
  "code_points s = map of_char s"

section \<open>The places provider\<close>

text \<open>
  An exception raised in Python: a \<open>KeyError\<close> for a key that a dictionary lacks, or the
  exception of a client library, with its message.
\<close>

datatype exn = KeyError string | Raised string

text \<open>
  The \<open>result\<close> of \<open>gmaps.place\<close>, as far as \<open>process_results\<close> reads it with \<open>.get\<close>:
  a key that is absent reads as \<open>None\<close>.
\<close>

record details =
  name :: "string option"
  formatted_address :: "string option"
  formatted_phone_number :: "string option"
  details_website :: "string option"

text \<open>One entry of the \<open>results\<close> of a nearby search; \<open>place['place_id']\<close> may be absent.\<close>

record place_hit =
  hit_place_id :: "string option"

text \<open>
  What \<open>gmaps.places_nearby\<close> returns. An absent \<open>results\<close> key is the empty list: both
  are false in \<open>if places_result.get('results')\<close>.
\<close>

record places_result =
  results :: "place_hit list"
  next_page_token :: "string option"

text \<open>The dictionary that \<open>process_results\<close> appends to \<open>dealers\<close>.\<close>

record dealer =
  business_name :: "string option"
  full_address :: "string option"
  phone_number :: "string option"
  website :: "string option"
  place_id :: string

text \<open>
  The two ways \<open>get_dealer_info\<close> calls \<open>gmaps.places_nearby\<close>: with location, radius,
  keyword and type, or with location and page token. The location is the value found under
  \<open>geometry.location\<close>; the code only passes it on, so its type \<open>'l\<close> is left open.
\<close>

datatype 'l nearby_args =
    Keyword_search 'l nat string string
  | Page_search 'l string

text \<open>
  An entry of the geocoding result, as \<open>geocode_result[0]['geometry']['location']\<close> reads
  it: its location, or the key that is absent, \<open>geometry\<close> or, under \<open>geometry\<close>,
  \<open>location\<close>.
\<close>

datatype 'l geocode_entry = Located 'l | Lacks_geometry | Lacks_location

text \<open>
  The provider is outside the program. Each of its three calls takes the state \<open>'w\<close> of
  the outside world, and returns the new state with either the exception it raises or its
  value. For \<open>place\<close> the value is what \<open>gmaps.place(...)['result']\<close> evaluates to.
\<close>

record ('w, 'l) gmaps =
  geocode :: "string \<Rightarrow> 'w \<Rightarrow> (exn + 'l geocode_entry list) \<times> 'w"
  places_nearby :: "'l nearby_args \<Rightarrow> 'w \<Rightarrow> (exn + places_result) \<times> 'w"
  place :: "string \<Rightarrow> string list \<Rightarrow> 'w \<Rightarrow> (exn + details) \<times> 'w"

definition detail_fields :: "string list" where
  "detail_fields =
     [''name'', ''formatted_address'', ''formatted_phone_number'', ''website'', ''place_id'']"

section \<open>Dealer search\<close>

text \<open>
  \<open>process_results(results, dealers, target_zipcode)\<close>. The list \<open>dealers\<close> is mutated in
  place by the source and returned here, with the state of the world. Whatever is raised
  while one place is handled (the missing \<open>place_id\<close>, the detail fetch) is caught inside
  the loop, which goes on with the next place. The warning shown to the user and the
  pause of 0.1 seconds are not represented.
\<close>

fun process_results ::
  "('w, 'l) gmaps \<Rightarrow> place_hit list \<Rightarrow> dealer list \<Rightarrow> string \<Rightarrow> 'w \<Rightarrow> dealer list \<times> 'w"
where
  "process_results G [] dealers target_zipcode w = (dealers, w)"
| "process_results G (p # ps) dealers target_zipcode w =
     (case hit_place_id p of
        None \<Rightarrow> process_results G ps dealers target_zipcode w
      | Some pid \<Rightarrow>
          (case place G pid detail_fields w of
             (Inl e, w') \<Rightarrow> process_results G ps dealers target_zipcode w'
           | (Inr d, w') \<Rightarrow>
               (let address = (case formatted_address d of None \<Rightarrow> [] | Some a \<Rightarrow> a);
                    address_zipcode = extract_zipcode address
                in if address_zipcode = Some target_zipcode
                   then process_results G ps
                          (dealers @ [\<lparr>business_name = name d,
                                       full_address = formatted_address d,
                                       phone_number = formatted_phone_number d,
                                       website = details_website d,
                                       place_id = pid\<rparr>])
                          target_zipcode w'
                   else process_results G ps dealers target_zipcode w')))"

text \<open>
  The loop \<open>while 'next_page_token' in places_result\<close>. It runs for as long as the provider
  hands out tokens, so it takes fuel, one unit for each further page. The first component
  of the result is \<open>None\<close> for a loop still running when the fuel is spent, \<open>Some (Inl e)\<close>
  for an exception that leaves the loop, and \<open>Some (Inr dealers)\<close> for its normal end; the
  second is the state of the world at that moment. The pause of 2 seconds before each
  request is not represented.
\<close>

fun next_pages ::
  "nat \<Rightarrow> ('w, 'l) gmaps \<Rightarrow> 'l \<Rightarrow> string \<Rightarrow> places_result \<Rightarrow> dealer list \<Rightarrow> 'w
     \<Rightarrow> (exn + dealer list) option \<times> 'w"
where
  "next_pages fuel G location zipcode places_result dealers w =
     (case next_page_token places_result of
        None \<Rightarrow> (Some (Inr dealers), w)
      | Some token \<Rightarrow>
          (case fuel of
             0 \<Rightarrow> (None, w)
           | Suc fuel' \<Rightarrow>
               (case places_nearby G (Page_search location token) w of
                  (Inl e, w') \<Rightarrow> (Some (Inl e), w')
                | (Inr places_result', w') \<Rightarrow>
                    if results places_result' \<noteq> []
                    then (case process_results G (results places_result') dealers zipcode w' of
                            (dealers', w'') \<Rightarrow>
                              next_pages fuel' G location zipcode places_result' dealers' w'')
                    else next_pages fuel' G location zipcode places_result' dealers w')))"

text \<open>
  The body of \<open>for query in search_queries\<close>: the first request of a query, and its further
  pages only when the first page has results.
\<close>

definition search_query ::
  "nat \<Rightarrow> ('w, 'l) gmaps \<Rightarrow> 'l \<Rightarrow> string \<Rightarrow> string \<Rightarrow> dealer list \<Rightarrow> 'w
     \<Rightarrow> (exn + dealer list) option \<times> 'w"
where
  "search_query fuel G location zipcode query dealers w =
     (case places_nearby G (Keyword_search location 15000 query ''car_dealer'') w of
        (Inl e, w') \<Rightarrow> (Some (Inl e), w')
      | (Inr places_result, w') \<Rightarrow>
          if results places_result \<noteq> []
          then (case process_results G (results places_result) dealers zipcode w' of
                  (dealers', w'') \<Rightarrow>
                    next_pages fuel G location zipcode places_result dealers' w'')
          else (Some (Inr dealers), w'))"

fun search_all ::
  "nat \<Rightarrow> ('w, 'l) gmaps \<Rightarrow> 'l \<Rightarrow> string \<Rightarrow> string list \<Rightarrow> dealer list \<Rightarrow> 'w
     \<Rightarrow> (exn + dealer list) option \<times> 'w"
where
  "search_all fuel G location zipcode [] dealers w = (Some (Inr dealers), w)"
| "search_all fuel G location zipcode (query # queries) dealers w =
     (case search_query fuel G location zipcode query dealers w of
        (Some (Inr dealers'), w') \<Rightarrow> search_all fuel G location zipcode queries dealers' w'
      | (r, w') \<Rightarrow> (r, w'))"

definition search_queries :: "string list" where
  "search_queries =
     [''independent used car dealer'', ''used car dealer'', ''pre-owned car dealer'',
      ''used auto sales'', ''used vehicle dealer'']"

text \<open>
  \<open>d[k] = v\<close> on a Python dictionary, kept as the list of its items in insertion order: a
  key already there keeps its place and takes the new value, a new key goes to the end.
\<close>

fun dict_set :: "('k \<times> 'v) list \<Rightarrow> 'k \<Rightarrow> 'v \<Rightarrow> ('k \<times> 'v) list" where
  "dict_set [] k v = [(k, v)]"
| "dict_set ((k', v') # items) k v =
     (if k' = k then (k, v) # items else (k', v') # dict_set items k v)"

text \<open>\<open>list({dealer['place_id']: dealer for dealer in dealers}.values())\<close>\<close>

definition unique_dealers :: "dealer list \<Rightarrow> dealer list" where
  "unique_dealers dealers =
     map snd (foldl (\<lambda>items dealer. dict_set items (place_id dealer) dealer) [] dealers)"

text \<open>
  \<open>get_dealer_info\<close> returns \<open>None\<close> on two paths, told apart by the message it shows
  first: no location for the zip code, or an exception caught by the outer handler.
\<close>

datatype failure =
    Could_not_find_location string
  | Error_finding_dealer_information exn

text \<open>
  \<open>get_dealer_info(zipcode)\<close>. \<open>Some (Inl f)\<close> is \<open>return None\<close> after the message \<open>f\<close>,
  \<open>Some (Inr dealers)\<close> is \<open>return list(unique_dealers)\<close>, and \<open>None\<close> a search whose
  pagination has not ended when the fuel is spent.
\<close>

definition get_dealer_info ::
  "nat \<Rightarrow> ('w, 'l) gmaps \<Rightarrow> string \<Rightarrow> 'w \<Rightarrow> (failure + dealer list) option \<times> 'w"
where
  "get_dealer_info fuel G zipcode w =
     (case geocode G zipcode w of
        (Inl e, w') \<Rightarrow> (Some (Inl (Error_finding_dealer_information e)), w')
      | (Inr [], w') \<Rightarrow> (Some (Inl (Could_not_find_location zipcode)), w')
      | (Inr (Lacks_geometry # _), w') \<Rightarrow>
          (Some (Inl (Error_finding_dealer_information (KeyError ''geometry''))), w')
      | (Inr (Lacks_location # _), w') \<Rightarrow>
          (Some (Inl (Error_finding_dealer_information (KeyError ''location''))), w')
      | (Inr (Located location # _), w') \<Rightarrow>
          (case search_all fuel G location zipcode search_queries [] w' of
             (None, w'') \<Rightarrow> (None, w'')
           | (Some (Inl e), w'') \<Rightarrow> (Some (Inl (Error_finding_dealer_information e)), w'')
           | (Some (Inr dealers), w'') \<Rightarrow> (Some (Inr (unique_dealers dealers)), w'')))"

section \<open>The requests of a run\<close>

text \<open>
  To speak of the requests a search makes, a provider is wrapped so that every call and
  its outcome is appended to a log kept beside the state of the world. The wrapped
  provider answers as the provider does.
\<close>

datatype 'l event =
    Geocode_call string "exn + 'l geocode_entry list"
  | Nearby_call "'l nearby_args" "exn + places_result"
  | Place_call string "string list" "exn + details"

definition logged :: "('w, 'l) gmaps \<Rightarrow> ('w \<times> 'l event list, 'l) gmaps" where
  "logged G =
     \<lparr>geocode = (\<lambda>address (w, log).
        case geocode G address w of (r, w') \<Rightarrow> (r, (w', log @ [Geocode_call address r]))),
      places_nearby = (\<lambda>args (w, log).
        case places_nearby G args w of (r, w') \<Rightarrow> (r, (w', log @ [Nearby_call args r]))),
      place = (\<lambda>pid fs (w, log).
        case place G pid fs w of (r, w') \<Rightarrow> (r, (w', log @ [Place_call pid fs r])))\<rparr>"

text \<open>A nearby-search or pagination request that raised.\<close>

fun nearby_raised :: "'l event \<Rightarrow> bool" where
  "nearby_raised (Nearby_call args (Inl e)) = True"
| "nearby_raised _ = False"

text \<open>
  The dealer that a logged detail fetch stands for: the fetch returned, and the code
  extracted from the address it returned is the target.
\<close>

fun discovery :: "string \<Rightarrow> 'l event \<Rightarrow> dealer option" where
  "discovery target (Place_call pid fs (Inr d)) =
     (case formatted_address d of
        None \<Rightarrow> None
      | Some a \<Rightarrow>
          if extract_zipcode a = Some target
          then Some \<lparr>business_name = name d, full_address = Some a,
                     phone_number = formatted_phone_number d,
                     website = details_website d, place_id = pid\<rparr>
          else None)"
| "discovery target _ = None"

definition discovered :: "string \<Rightarrow> 'l event list \<Rightarrow> dealer list" where
  "discovered target log = List.map_filter (discovery target) log"

text \<open>The place identifiers whose details a log shows requested, in order.\<close>

fun fetched :: "'l event \<Rightarrow> string option" where
  "fetched (Place_call pid fs r) = Some pid"
| "fetched _ = None"

text \<open>
  What the requests \<open>new\<close> that a loop of the search has made say about the way it ended:
  still running or ended normally, no nearby-search request has raised, and at a normal
  end the dealers appended are those of the detail fetches made; ended by an exception,
  its last request is a nearby-search request that raised this exception.
\<close>

definition run_shows ::
  "string \<Rightarrow> dealer list \<Rightarrow> 'l event list \<Rightarrow> (exn + dealer list) option \<Rightarrow> bool"
where
  "run_shows z dealers new r =
     (case r of
        None \<Rightarrow> \<not> list_ex nearby_raised new
      | Some (Inr dealers') \<Rightarrow>
          \<not> list_ex nearby_raised new \<and> dealers' = dealers @ discovered z new
      | Some (Inl e) \<Rightarrow>
          new \<noteq> [] \<and> (case last new of Nearby_call args (Inl e') \<Rightarrow> e' = e | _ \<Rightarrow> False))"

text \<open>
  The same for a whole search, after its geocoding request with outcome \<open>g\<close>: without a
  location the search has made no further request and has failed; with one, the requests
  \<open>new\<close> that followed tell how it ended.
\<close>

definition search_shows ::
  "string \<Rightarrow> exn + 'l geocode_entry list \<Rightarrow> 'l event list \<Rightarrow> (failure + dealer list) option \<Rightarrow> bool"
where
  "search_shows z g new r =
     (case g of
        Inl e \<Rightarrow> new = [] \<and> r = Some (Inl (Error_finding_dealer_information e))
      | Inr [] \<Rightarrow> new = [] \<and> r = Some (Inl (Could_not_find_location z))
      | Inr (Lacks_geometry # rest) \<Rightarrow>
          new = [] \<and> r = Some (Inl (Error_finding_dealer_information (KeyError ''geometry'')))
      | Inr (Lacks_location # rest) \<Rightarrow>
          new = [] \<and> r = Some (Inl (Error_finding_dealer_information (KeyError ''location'')))
      | Inr (Located location # rest) \<Rightarrow>
          (case r of
             None \<Rightarrow> \<not> list_ex nearby_raised new
           | Some (Inr dealers) \<Rightarrow>
               \<not> list_ex nearby_raised new \<and> dealers = unique_dealers (discovered z new)
           | Some (Inl f) \<Rightarrow>
               new \<noteq> [] \<and>
               (case last new of
                  Nearby_call args (Inl e) \<Rightarrow> f = Error_finding_dealer_information e
                | _ \<Rightarrow> False)))"

text \<open>
  Pagination that ends: a measure \<open>m\<close> of the state of the world that goes down with
  every page request answered with a further token, and that no detail fetch raises.
\<close>

definition pagination_bounded :: "('w, 'l) gmaps \<Rightarrow> ('w \<Rightarrow> nat) \<Rightarrow> bool" where
  "pagination_bounded G m \<longleftrightarrow>
     (\<forall>loc tok w pr w'. places_nearby G (Page_search loc tok) w = (Inr pr, w') \<longrightarrow>
        next_page_token pr \<noteq> None \<longrightarrow> m w' < m w)
     \<and> (\<forall>pid fs w. m (snd (place G pid fs w)) \<le> m w)"

section \<open>Sample providers\<close>

text \<open>
  Providers to run the search against. The state of the world counts the detail fetches
  made so far; geocoding, nearby search (by keyword, or by page token) and detail
  fetches (by place identifier and count) answer as the three arguments say.
\<close>

definition sample_provider ::
  "(exn + unit geocode_entry list) \<Rightarrow> (string \<Rightarrow> exn + places_result) \<Rightarrow> (string \<Rightarrow> nat \<Rightarrow> exn + details)
     \<Rightarrow> (nat, unit) gmaps"
where
  "sample_provider g nearby det =
     \<lparr>geocode = (\<lambda>address w. (g, w)),
      places_nearby = (\<lambda>args w.
        case args of
          Keyword_search location radius query type \<Rightarrow> (nearby query, w)
        | Page_search location token \<Rightarrow> (nearby token, w)),
      place = (\<lambda>pid fs w. (det pid w, Suc w))\<rparr>"

definition hits :: "string list \<Rightarrow> string option \<Rightarrow> places_result" where
  "hits pids token = \<lparr>results = map (\<lambda>pid. \<lparr>hit_place_id = Some pid\<rparr>) pids,
                       next_page_token = token\<rparr>"

definition dealer_at :: "string \<Rightarrow> string \<Rightarrow> details" where
  "dealer_at n a = \<lparr>name = Some n, formatted_address = Some a,
                    formatted_phone_number = None, details_website = None\<rparr>"

text \<open>
  One keyword finds the places \<open>A\<close> and \<open>B\<close>, the others nothing; \<open>A\<close> is in 20136 and
  \<open>B\<close> in 20135.
\<close>

definition two_candidates :: "(nat, unit) gmaps" where
  "two_candidates =
     sample_provider (Inr [Located ()])
       (\<lambda>q. Inr (hits (if q = ''used car dealer'' then [''A'', ''B''] else []) None))
       (\<lambda>pid n. Inr (if pid = ''A''
                      then dealer_at ''Alpha Autos'' ''1 Main St, Gainesville, VA 20136, USA''
                      else dealer_at ''Beta Cars'' ''2 Main St, Haymarket, VA 20135, USA''))"

text \<open>
  Two keywords find the place \<open>A\<close>, and its details carry another name at the second
  fetch than at the first.
\<close>

definition changing_details :: "(nat, unit) gmaps" where
  "changing_details =
     sample_provider (Inr [Located ()])
       (\<lambda>q. Inr (hits (if q = ''used car dealer'' \<or> q = ''used auto sales'' then [''A''] else [])
                    None))
       (\<lambda>pid n. Inr (dealer_at (if n = 0 then ''Old Name'' else ''New Name'')
                        ''1 Main St, Gainesville, VA 20136, USA''))"

text \<open>Geocoding finds nothing.\<close>

definition unresolvable :: "(nat, unit) gmaps" where
  "unresolvable =
     sample_provider (Inr []) (\<lambda>q. Inr (hits [''A''] None))
       (\<lambda>pid n. Inr (dealer_at ''Alpha Autos'' ''1 Main St, Gainesville, VA 20136, USA''))"

text \<open>Geocoding succeeds and every nearby search raises.\<close>

definition nearby_down :: "(nat, unit) gmaps" where
  "nearby_down =
     sample_provider (Inr [Located ()]) (\<lambda>q. Inl (Raised ''timeout''))
       (\<lambda>pid n. Inl (Raised ''timeout''))"


text \<open>
  The first keyword finds \<open>A\<close>, in 20136, and a token for a second page; the request for
  that page raises.
\<close>

definition second_page_fails :: "(nat, unit) gmaps" where
  "second_page_fails =
     sample_provider (Inr [Located ()])
       (\<lambda>q. if q = ''independent used car dealer'' then Inr (hits [''A''] (Some ''page2''))
             else Inl (Raised ''INVALID_REQUEST''))
       (\<lambda>pid n. Inr (dealer_at ''Alpha Autos'' ''1 Main St, Gainesville, VA 20136, USA''))"

section \<open>Website content and its analysis\<close>

text \<open>A value that \<open>json.loads\<close> returns.\<close>

datatype pyjson =
    PNone
  | PBool bool
  | PInt int
  | PFloat string
  | PStr string
  | PList "pyjson list"
  | PDict "(string \<times> pyjson) list"

text \<open>
  What \<open>extract_website_info\<close> calls outside the program. The three network calls take
  and return the state \<open>'w\<close> of the outside world; the library functions are functions
  of their arguments.
  \<^item> \<open>fetch_url url\<close> is \<open>trafilatura.fetch_url(url)\<close>: the document, or \<open>None\<close>.
  \<^item> \<open>trafilatura_extract downloaded\<close> is \<open>trafilatura.extract\<close> with links included,
    images and tables excluded: the text, or \<open>None\<close>.
  \<^item> \<open>requests_get url timeout\<close> is \<open>requests.get(url, timeout=timeout).text\<close>.
  \<^item> \<open>stripped_strings tags text\<close> is the list of \<open>soup.stripped_strings\<close> of the parsed
    \<open>text\<close> after every element with a tag in \<open>tags\<close> has been removed.
  \<^item> \<open>chat_completion content\<close> is \<open>response.choices[0].message.content\<close> of the chat
    completion requested with the analysis prompt around \<open>content\<close>, temperature 0.5 and
    at most 2000 tokens.
  \<^item> \<open>json_loads\<close> is \<open>json.loads\<close>.
\<close>

record 'w web =
  fetch_url :: "string \<Rightarrow> 'w \<Rightarrow> (exn + string option) \<times> 'w"
  trafilatura_extract :: "string \<Rightarrow> exn + string option"
  requests_get :: "string \<Rightarrow> nat \<Rightarrow> 'w \<Rightarrow> (exn + string) \<times> 'w"
  stripped_strings :: "string list \<Rightarrow> string \<Rightarrow> string list"
  chat_completion :: "string \<Rightarrow> 'w \<Rightarrow> (exn + string) \<times> 'w"
  json_loads :: "string \<Rightarrow> exn + pyjson"

text \<open>\<open>' '.join(strings)\<close>\<close>

fun join_spaces :: "string list \<Rightarrow> string" where
  "join_spaces [] = []"
| "join_spaces [s] = s"
| "join_spaces (s # t # ts) = s @ '' '' @ join_spaces (t # ts)"

text \<open>
  The three paths on which \<open>extract_website_info\<close> returns \<open>None\<close>, named by the message
  shown: the two warnings before a \<open>return None\<close>, and the error of the outer handler.
\<close>

datatype web_failure =
    Could_not_download string
  | Could_not_extract_content
  | Error_analyzing_website exn

text \<open>
  The first part of \<open>extract_website_info(url)\<close>, up to the second \<open>return None\<close>: the text
  content of the page, or the failure with which the function returns.
\<close>

definition website_text :: "'w web \<Rightarrow> string \<Rightarrow> 'w \<Rightarrow> (web_failure + string) \<times> 'w" where
  "website_text W url w =
     (case fetch_url W url w of
        (Inl e, w1) \<Rightarrow> (Inl (Error_analyzing_website e), w1)
      | (Inr downloaded, w1) \<Rightarrow>
          if downloaded = None \<or> downloaded = Some []
          then (Inl (Could_not_download url), w1)
          else
            (case trafilatura_extract W (the downloaded) of
               Inl e \<Rightarrow> (Inl (Error_analyzing_website e), w1)
             | Inr text_content \<Rightarrow>
                 if text_content = None \<or> text_content = Some []
                 then
                   (case requests_get W url 10 w1 of
                      (Inl e, w2) \<Rightarrow> (Inl (Error_analyzing_website e), w2)
                    | (Inr response_text, w2) \<Rightarrow>
                        (let text_content' =
                               join_spaces (stripped_strings W [''script'', ''style''] response_text)
                         in if text_content' = []
                            then (Inl Could_not_extract_content, w2)
                            else (Inr text_content', w2)))
                 else (Inr (the text_content), w1)))"

text \<open>
  The second part: the chat completion for \<open>text_content[:4000]\<close>, and \<open>json.loads\<close> of
  the content of its response. Whatever is raised reaches the outer handler.
\<close>

definition analyze_text :: "'w web \<Rightarrow> string \<Rightarrow> 'w \<Rightarrow> (web_failure + pyjson) \<times> 'w" where
  "analyze_text W text_content w =
     (case chat_completion W (take 4000 text_content) w of
        (Inl e, w1) \<Rightarrow> (Inl (Error_analyzing_website e), w1)
      | (Inr content, w1) \<Rightarrow>
          (case json_loads W content of
             Inl e \<Rightarrow> (Inl (Error_analyzing_website e), w1)
           | Inr analysis \<Rightarrow> (Inr analysis, w1)))"

text \<open>
  \<open>extract_website_info(url)\<close>: \<open>Inl f\<close> is \<open>return None\<close> after the message \<open>f\<close>, and
  \<open>Inr analysis\<close> is \<open>return analysis\<close>.
\<close>

definition extract_website_info :: "'w web \<Rightarrow> string \<Rightarrow> 'w \<Rightarrow> (web_failure + pyjson) \<times> 'w" where
  "extract_website_info W url w =
     (case website_text W url w of
        (Inl f, w1) \<Rightarrow> (Inl f, w1)
      | (Inr text_content, w1) \<Rightarrow> analyze_text W text_content w1)"

text \<open>The network calls of a run, logged as for the places provider.\<close>

datatype web_event =
    Fetch_url_call string "exn + string option"
  | Get_call string nat "exn + string"
  | Chat_call string "exn + string"

definition logged_web :: "'w web \<Rightarrow> ('w \<times> web_event list) web" where
  "logged_web W =
     \<lparr>fetch_url = (\<lambda>url (w, log).
        case fetch_url W url w of (r, w') \<Rightarrow> (r, (w', log @ [Fetch_url_call url r]))),
      trafilatura_extract = trafilatura_extract W,
      requests_get = (\<lambda>url timeout (w, log).
        case requests_get W url timeout w of
          (r, w') \<Rightarrow> (r, (w', log @ [Get_call url timeout r]))),
      stripped_strings = stripped_strings W,
      chat_completion = (\<lambda>content (w, log).
        case chat_completion W content w of (r, w') \<Rightarrow> (r, (w', log @ [Chat_call content r]))),
      json_loads = json_loads W\<rparr>"

text \<open>
  A sample website. The state of the world counts the network calls. The download
  returns \<open>downloaded\<close>, the extraction \<open>extracted\<close>, a GET request the document \<open>body\<close>,
  whose strings outside script and style elements are \<open>strings\<close>, and the chat
  completion the content \<open>answer\<close>. Of \<open>json.loads\<close> the sample has the values at two
  arguments: \<open>[1, 2]\<close> is the list of 1 and 2, and \<open>{}\<close> the empty dictionary; on
  every other argument used here it raises, as \<open>json.loads\<close> does on text that is not
  JSON.
\<close>

definition sample_web ::
  "string option \<Rightarrow> string option \<Rightarrow> string \<Rightarrow> string list \<Rightarrow> string \<Rightarrow> nat web"
where
  "sample_web downloaded extracted body strings answer =
     \<lparr>fetch_url = (\<lambda>url w. (Inr downloaded, Suc w)),
      trafilatura_extract = (\<lambda>d. Inr extracted),
      requests_get = (\<lambda>url timeout w. (Inr body, Suc w)),
      stripped_strings = (\<lambda>tags text. strings),
      chat_completion = (\<lambda>content w. (Inr answer, Suc w)),
      json_loads = (\<lambda>s. if s = ''[1, 2]'' then Inr (PList [PInt 1, PInt 2])
                         else if s = ''{}'' then Inr (PDict [])
                         else Inl (Raised ''Expecting value: line 1 column 1 (char 0)''))\<rparr>"

section \<open>Properties of the regular expression matcher\<close>

lemma digits5_SomeD:
  "digits5 s = Some (g, rest) \<Longrightarrow> s = g @ rest \<and> length g = 5 \<and> list_all re_digit g"
  by (cases s rule: digits5.cases) (simp_all split: if_splits, auto)

lemma length5E:
  assumes "length g = 5"
  obtains e1 e2 e3 e4 e5 where "g = [e1, e2, e3, e4, e5]"
proof -
  from assms obtain e1 g1 where 1: "g = e1 # g1" "length g1 = 4" by (cases g) auto
  then obtain e2 g2 where 2: "g1 = e2 # g2" "length g2 = 3" by (cases g1) auto
  then obtain e3 g3 where 3: "g2 = e3 # g3" "length g3 = 2" by (cases g2) auto
  then obtain e4 g4 where 4: "g3 = e4 # g4" "length g4 = 1" by (cases g3) auto
  then obtain e5 where 5: "g4 = [e5]" by (cases g4) auto
  show thesis using that 1 2 3 4 5 by simp
qed

lemma digits5_SomeI:
  assumes "length g = 5" "list_all re_digit g"
  shows "digits5 (g @ rest) = Some (g, rest)"
proof -
  from assms(1) obtain e1 e2 e3 e4 e5 where "g = [e1, e2, e3, e4, e5]" by (rule length5E)
  with assms(2) show ?thesis by simp
qed

lemma digits5_Some:
  "digits5 s = Some (g, rest) \<longleftrightarrow> s = g @ rest \<and> length g = 5 \<and> list_all re_digit g"
  using digits5_SomeD digits5_SomeI by blast

lemma zip_match_at_SomeD:
  assumes "zip_match_at s = Some z"
  shows "\<exists>a b post. s = a # z @ b # post \<and> lead_class a \<and> trail_class b
           \<and> length z = 5 \<and> list_all re_digit z"
proof (cases s)
  case Nil
  with assms show ?thesis by simp
next
  case (Cons a t)
  with assms have la: "lead_class a" by (simp split: if_splits)
  from assms Cons la obtain g rest where d: "digits5 t = Some (g, rest)"
    by (cases "digits5 t") auto
  from assms Cons la d obtain b post where r: "rest = b # post"
    by (cases rest) auto
  from assms Cons la d r have tb: "trail_class b" and zg: "z = g"
    by (simp_all split: if_splits)
  from digits5_SomeD [OF d] have "t = g @ rest" "length g = 5" "list_all re_digit g"
    by simp_all
  with Cons la r tb zg show ?thesis by simp
qed

lemma zip_match_at_SomeI:
  assumes "lead_class a" "trail_class b" "length z = 5" "list_all re_digit z"
  shows "zip_match_at (a # z @ b # post) = Some z"
  using assms by (simp add: digits5_SomeI)


lemma re_search_SomeD:
  "re_search s = Some z \<Longrightarrow> \<exists>pre rest. s = pre @ rest \<and> zip_match_at rest = Some z"
proof (induction s)
  case Nil
  then show ?case by simp
next
  case (Cons c s)
  show ?case
  proof (cases "zip_match_at (c # s)")
    case None
    with Cons.prems have "re_search s = Some z" by simp
    from Cons.IH [OF this] obtain pre rest where
      "s = pre @ rest" "zip_match_at rest = Some z" by blast
    then have "c # s = (c # pre) @ rest \<and> zip_match_at rest = Some z" by simp
    then show ?thesis by blast
  next
    case (Some g)
    with Cons.prems have "c # s = [] @ (c # s) \<and> zip_match_at (c # s) = Some z" by simp
    then show ?thesis by blast
  qed
qed

lemma re_search_None_iff:
  "re_search s = None \<longleftrightarrow> (\<forall>pre rest. s = pre @ rest \<longrightarrow> zip_match_at rest = None)"
proof (induction s)
  case Nil
  then show ?case by simp
next
  case (Cons c s)
  show ?case
  proof (cases "zip_match_at (c # s)")
    case None
    then have "re_search (c # s) = None \<longleftrightarrow> re_search s = None" by simp
    also have "\<dots> \<longleftrightarrow> (\<forall>pre rest. s = pre @ rest \<longrightarrow> zip_match_at rest = None)"
      by (rule Cons.IH)
    also have "\<dots> \<longleftrightarrow> (\<forall>pre rest. c # s = pre @ rest \<longrightarrow> zip_match_at rest = None)"
      using None by (auto simp: Cons_eq_append_conv)
    finally show ?thesis .
  next
    case (Some g)
    then have "re_search (c # s) \<noteq> None" by simp
    moreover have "c # s = [] @ (c # s)" by simp
    ultimately show ?thesis using Some by (metis option.distinct(1))
  qed
qed

lemma class_not_digit:
  "lead_class c \<Longrightarrow> \<not> re_digit c" "trail_class c \<Longrightarrow> \<not> re_digit c"
  by (auto simp: lead_class_def trail_class_def re_digit_def re_space_def)

subsection \<open>The pattern of \<open>verify_zipcode\<close>\<close>

lemma uni_digits5_SomeD:
  "uni_digits5 s = Some (g, rest) \<Longrightarrow> s = g @ rest \<and> length g = 5 \<and> list_all uni_digit g"
  by (cases s rule: uni_digits5.cases) (simp_all split: if_splits, auto)

lemma uni_digits5_SomeI:
  assumes "length g = 5" "list_all uni_digit g"
  shows "uni_digits5 (g @ rest) = Some (g, rest)"
proof -
  from assms(1) obtain e1 e2 e3 e4 e5 where "g = [e1, e2, e3, e4, e5]" by (rule length5E)
  with assms(2) show ?thesis by simp
qed

text \<open>
  What \<open>verify_zipcode\<close> accepts: five decimal digits of any script, and five such digits
  followed by one line feed.
\<close>

lemma verify_zipcode_iff:
  "verify_zipcode s \<longleftrightarrow>
     (\<exists>z. length z = 5 \<and> list_all uni_digit z \<and> (s = z \<or> s = z @ [0x0A]))"
proof
  assume "verify_zipcode s"
  then obtain g rest where d: "uni_digits5 s = Some (g, rest)" and e: "at_dollar rest"
    by (auto simp: verify_zipcode_def split: option.splits)
  from uni_digits5_SomeD [OF d] e show
    "\<exists>z. length z = 5 \<and> list_all uni_digit z \<and> (s = z \<or> s = z @ [0x0A])"
    by (auto simp: at_dollar_def)
next
  assume "\<exists>z. length z = 5 \<and> list_all uni_digit z \<and> (s = z \<or> s = z @ [0x0A])"
  then obtain z where z: "length z = 5" "list_all uni_digit z"
    and s: "s = z @ [] \<or> s = z @ [0x0A]" by auto
  from s show "verify_zipcode s"
  proof
    assume "s = z @ []"
    with uni_digits5_SomeI [OF z, of "[]"] show ?thesis
      by (simp add: verify_zipcode_def at_dollar_def)
  next
    assume "s = z @ [0x0A]"
    with uni_digits5_SomeI [OF z, of "[0x0A]"] show ?thesis
      by (simp add: verify_zipcode_def at_dollar_def)
  qed
qed

text \<open>Below code point 256 the decimal digits are the ten ASCII digits.\<close>

lemma uni_digit_below_256: "c < 256 \<Longrightarrow> uni_digit c \<longleftrightarrow> 48 \<le> c \<and> c \<le> 57"
  by (auto simp: uni_digit_def decimal_ranges_def)

lemma re_digit_of_char: "re_digit c \<longleftrightarrow> 48 \<le> (of_char c :: nat) \<and> (of_char c :: nat) \<le> 57"
proof
  assume "re_digit c"
  then show "48 \<le> (of_char c :: nat) \<and> (of_char c :: nat) \<le> 57"
    by (auto simp: re_digit_def)
next
  define n :: nat where "n = of_char c"
  assume "48 \<le> (of_char c :: nat) \<and> (of_char c :: nat) \<le> 57"
  then have "48 \<le> n \<and> n \<le> 57" by (simp add: n_def)
  then have "n \<in> {48, 49, 50, 51, 52, 53, 54, 55, 56, 57}" by (simp only: insert_iff empty_iff) arith
  then have "char_of n \<in> char_of ` {48, 49, 50, 51, 52, 53, 54, 55, 56, 57 :: nat}"
    by (rule imageI)
  moreover have "char_of n = c" by (simp add: n_def)
  moreover have "char_of (48 :: nat) = CHR ''0''" "char_of (49 :: nat) = CHR ''1''"
    "char_of (50 :: nat) = CHR ''2''" "char_of (51 :: nat) = CHR ''3''"
    "char_of (52 :: nat) = CHR ''4''" "char_of (53 :: nat) = CHR ''5''"
    "char_of (54 :: nat) = CHR ''6''" "char_of (55 :: nat) = CHR ''7''"
    "char_of (56 :: nat) = CHR ''8''" "char_of (57 :: nat) = CHR ''9''"
    by (simp_all add: char_of_def bit_numeral_simps bit_0)
  ultimately show "re_digit c"
    by (auto simp: re_digit_def)
qed

text \<open>On the characters of an address the two models of \<open>\d\<close> agree.\<close>

lemma uni_digit_of_char: "uni_digit (of_char c) \<longleftrightarrow> re_digit c"
proof -
  have "(of_char c :: nat) < 256" by simp
  then show ?thesis by (simp add: uni_digit_below_256 re_digit_of_char)
qed

lemma verify_zipcode_examples:
  "verify_zipcode (code_points ''20136'')" "\<not> verify_zipcode (code_points ''2013'')"
  "\<not> verify_zipcode (code_points ''201366'')" "\<not> verify_zipcode (code_points ''2013a'')"
  by (simp_all add: verify_zipcode_def at_dollar_def uni_digit_def decimal_ranges_def
        code_points_def)


section \<open>Claims about the two regular expressions\<close>

text \<open>
  Claim C1, as the code has it. Whatever \<open>extract_zipcode\<close> returns is a run of exactly five
  digits that stands in the address directly after a comma or a whitespace character and
  directly before a comma, a whitespace character or a hyphen; neither neighbour is a digit,
  so the run is never part of a longer digit sequence. The function returns nothing exactly
  when the address has no such run: the start and the end of the string are not boundaries.
  \<open>123 Main St, Springfield, IL 62701, USA\<close> gives \<open>62701\<close>, and so does
  \<open>9 Elm St, Springfield, IL 62701-1234 Unit 5\<close>.
\<close>

theorem extract_zipcode_delimited:
  "(extract_zipcode address = Some z \<longrightarrow>
      (\<exists>pre a b post. address = pre @ a # z @ b # post
         \<and> lead_class a \<and> trail_class b \<and> \<not> re_digit a \<and> \<not> re_digit b
         \<and> length z = 5 \<and> list_all re_digit z))
   \<and> (extract_zipcode address = None \<longleftrightarrow>
        \<not> (\<exists>pre a g b post. address = pre @ a # g @ b # post
              \<and> lead_class a \<and> trail_class b \<and> length g = 5 \<and> list_all re_digit g))
   \<and> extract_zipcode ''123 Main St, Springfield, IL 62701, USA'' = Some ''62701''
   \<and> extract_zipcode ''9 Elm St, Springfield, IL 62701-1234 Unit 5'' = Some ''62701''"
proof (intro conjI impI)
  assume "extract_zipcode address = Some z"
  then have "re_search address = Some z" by (simp add: extract_zipcode_def)
  from re_search_SomeD [OF this] obtain pre rest where
    "address = pre @ rest" "zip_match_at rest = Some z" by blast
  then show "\<exists>pre a b post. address = pre @ a # z @ b # post
         \<and> lead_class a \<and> trail_class b \<and> \<not> re_digit a \<and> \<not> re_digit b
         \<and> length z = 5 \<and> list_all re_digit z"
    using zip_match_at_SomeD [of rest z] class_not_digit by blast
next
  show "extract_zipcode address = None \<longleftrightarrow>
        \<not> (\<exists>pre a g b post. address = pre @ a # g @ b # post
              \<and> lead_class a \<and> trail_class b \<and> length g = 5 \<and> list_all re_digit g)"
  proof
    assume n: "extract_zipcode address = None"
    show "\<not> (\<exists>pre a g b post. address = pre @ a # g @ b # post
              \<and> lead_class a \<and> trail_class b \<and> length g = 5 \<and> list_all re_digit g)"
    proof
      assume "\<exists>pre a g b post. address = pre @ a # g @ b # post
              \<and> lead_class a \<and> trail_class b \<and> length g = 5 \<and> list_all re_digit g"
      then obtain pre a g b post where a: "address = pre @ (a # g @ b # post)"
        and m: "lead_class a" "trail_class b" "length g = 5" "list_all re_digit g" by auto
      from n a have "zip_match_at (a # g @ b # post) = None"
        unfolding extract_zipcode_def re_search_None_iff by blast
      with zip_match_at_SomeI [OF m] show False by simp
    qed
  next
    assume ne: "\<not> (\<exists>pre a g b post. address = pre @ a # g @ b # post
              \<and> lead_class a \<and> trail_class b \<and> length g = 5 \<and> list_all re_digit g)"
    show "extract_zipcode address = None"
    proof (rule ccontr)
      assume "extract_zipcode address \<noteq> None"
      then obtain z where "re_search address = Some z" by (auto simp: extract_zipcode_def)
      then obtain pre rest where "address = pre @ rest" "zip_match_at rest = Some z"
        using re_search_SomeD by blast
      with zip_match_at_SomeD [of rest z] ne show False by blast
    qed
  qed
next
  show "extract_zipcode ''123 Main St, Springfield, IL 62701, USA'' = Some ''62701''"
    by (simp add: extract_zipcode_def lead_class_def trail_class_def re_space_def re_digit_def)
next
  show "extract_zipcode ''9 Elm St, Springfield, IL 62701-1234 Unit 5'' = Some ''62701''"
    by (simp add: extract_zipcode_def lead_class_def trail_class_def re_space_def re_digit_def)
qed

text \<open>The theorem at an address for which the function returns a code.\<close>

theorem extract_zipcode_delimited_witness:
  "extract_zipcode ''IL 62701, USA'' = Some ''62701'' \<and>
   (\<exists>pre a b post. ''IL 62701, USA'' = pre @ a # ''62701'' @ b # post
         \<and> lead_class a \<and> trail_class b \<and> \<not> re_digit a \<and> \<not> re_digit b)"
proof -
  have e: "extract_zipcode ''IL 62701, USA'' = Some ''62701''"
    by (simp add: extract_zipcode_def lead_class_def trail_class_def re_space_def re_digit_def)
  with extract_zipcode_delimited [of "''IL 62701, USA''" "''62701''"] show ?thesis
    by blast
qed

text \<open>
  Claim C1 as the specification words it fails: the address
  \<open>123 Main St, Springfield, IL 62701\<close> ends with the code, no delimiter follows it, and
  the search finds nothing.
\<close>

theorem extract_zipcode_end_of_string:
  "extract_zipcode ''123 Main St, Springfield, IL 62701'' \<noteq> Some ''62701''"
  by (simp add: extract_zipcode_def lead_class_def trail_class_def re_space_def re_digit_def)

text \<open>
  Claim C2 at the input of the five fullwidth digits \<open>0xFF12\<close>, \<open>0xFF10\<close>, \<open>0xFF11\<close>,
  \<open>0xFF13\<close>, \<open>0xFF16\<close> (two, zero, one, three, six): five characters, none of them an
  ASCII character, and \<open>verify_zipcode\<close> accepts them, because \<open>\d\<close> in a pattern for \<open>str\<close>
  matches the decimal digits of every script.
\<close>

theorem verify_zipcode_fullwidth_digits:
  "verify_zipcode [0xFF12, 0xFF10, 0xFF11, 0xFF13, 0xFF16]
   \<and> length [0xFF12, 0xFF10, 0xFF11, 0xFF13, 0xFF16 :: nat] = 5
   \<and> list_all (\<lambda>c. 127 < c) [0xFF12, 0xFF10, 0xFF11, 0xFF13, 0xFF16 :: nat]"
  by (simp add: verify_zipcode_def at_dollar_def uni_digit_def decimal_ranges_def)

section \<open>Properties of the dealer search\<close>

declare next_pages.simps [simp del]

lemma logged_geocode:
  "geocode (logged G) a (w, log) =
     (fst (geocode G a w), (snd (geocode G a w), log @ [Geocode_call a (fst (geocode G a w))]))"
  by (simp add: logged_def split: prod.split)

lemma logged_places_nearby:
  "places_nearby (logged G) args (w, log) =
     (fst (places_nearby G args w),
      (snd (places_nearby G args w), log @ [Nearby_call args (fst (places_nearby G args w))]))"
  by (simp add: logged_def split: prod.split)

lemma logged_place:
  "place (logged G) pid fs (w, log) =
     (fst (place G pid fs w),
      (snd (place G pid fs w), log @ [Place_call pid fs (fst (place G pid fs w))]))"
  by (simp add: logged_def split: prod.split)

lemma discovered_Nil: "discovered z [] = []"
  by (simp add: discovered_def List.map_filter_simps)

lemma discovered_append: "discovered z (xs @ ys) = discovered z xs @ discovered z ys"
  by (simp add: discovered_def List.map_filter_def)

lemma discovered_Cons:
  "discovered z (ev # evs) =
     (case discovery z ev of None \<Rightarrow> discovered z evs | Some d \<Rightarrow> d # discovered z evs)"
  by (simp add: discovered_def List.map_filter_simps split: option.split)

lemma discovered_single:
  "discovered z [ev] = (case discovery z ev of None \<Rightarrow> [] | Some d \<Rightarrow> [d])"
  by (simp add: discovered_Cons discovered_Nil split: option.split)

lemma extract_zipcode_Nil: "extract_zipcode [] = None"
  by (simp add: extract_zipcode_def)

lemma process_results_step:
  assumes "hit_place_id p = Some pid" "place G pid detail_fields w = (r, w1)"
  shows "process_results G (p # ps) dealers z w =
         process_results G ps (dealers @ discovered z [Place_call pid detail_fields r]) z w1"
proof (cases r)
  case (Inl e)
  with assms show ?thesis by (simp add: discovered_single)
next
  case (Inr d)
  show ?thesis
  proof (cases "formatted_address d")
    case None
    with assms Inr show ?thesis by (simp add: discovered_single extract_zipcode_Nil)
  next
    case (Some a)
    with assms Inr show ?thesis by (simp add: discovered_single)
  qed
qed

text \<open>
  What \<open>process_results\<close> does, read off the log: it requests the details of every place
  that has an identifier, in order, whatever the earlier fetches did, makes no other
  request, and appends exactly the dealers of the fetches that returned an address with
  the target code. The run against the wrapped provider is the run against the provider.
\<close>

lemma process_results_logged:
  fixes G :: "('w, 'l) gmaps"
  shows "\<exists>new. process_results (logged G) ps dealers z (w, log) =
           (dealers @ discovered z new, (snd (process_results G ps dealers z w), log @ new))
         \<and> fst (process_results G ps dealers z w) = dealers @ discovered z new
         \<and> List.map_filter fetched new = List.map_filter hit_place_id ps
         \<and> \<not> list_ex nearby_raised new"
    (is "\<exists>new. ?P ps dealers w log new")
proof (induction ps arbitrary: dealers w log)
  case Nil
  have "?P [] dealers w log []"
    by (simp add: discovered_Nil List.map_filter_simps)
  then show ?case by (rule exI)
next
  case (Cons p ps)
  show ?case
  proof (cases "hit_place_id p")
    case None
    from Cons.IH [of dealers w log] obtain new where n: "?P ps dealers w log new" ..
    have s1: "process_results (logged G) (p # ps) dealers z (w, log) =
              process_results (logged G) ps dealers z (w, log)"
      using None by simp
    have s2: "process_results G (p # ps) dealers z w = process_results G ps dealers z w"
      using None by simp
    have s3: "List.map_filter hit_place_id (p # ps) = List.map_filter hit_place_id ps"
      using None by (simp add: List.map_filter_simps)
    have "?P (p # ps) dealers w log new"
      unfolding s1 s2 s3 by (rule n)
    then show ?thesis by (rule exI)
  next
    case (Some pid)
    obtain r w1 where pl: "place G pid detail_fields w = (r, w1)"
      by (cases "place G pid detail_fields w")
    define ev :: "'l event" where "ev = Place_call pid detail_fields r"
    define ds1 where "ds1 = dealers @ discovered z [ev]"
    have pll: "place (logged G) pid detail_fields (w, log) = (r, (w1, log @ [ev]))"
      using pl by (simp add: logged_place ev_def)
    from Cons.IH [of ds1 w1 "log @ [ev]"] obtain new where
      n: "?P ps ds1 w1 (log @ [ev]) new" ..
    have s1: "process_results (logged G) (p # ps) dealers z (w, log) =
              process_results (logged G) ps ds1 z (w1, log @ [ev])"
      unfolding ds1_def ev_def by (rule process_results_step [OF Some pll [unfolded ev_def]])
    have s2: "process_results G (p # ps) dealers z w = process_results G ps ds1 z w1"
      unfolding ds1_def ev_def by (rule process_results_step [OF Some pl])
    have s3: "List.map_filter hit_place_id (p # ps) = pid # List.map_filter hit_place_id ps"
      using Some by (simp add: List.map_filter_simps)
    have s4: "List.map_filter fetched (ev # new) = pid # List.map_filter fetched new"
      by (simp add: List.map_filter_simps ev_def)
    have s5: "dealers @ discovered z (ev # new) = ds1 @ discovered z new"
      using discovered_append [of z "[ev]" new] by (simp add: ds1_def)
    have s6: "list_ex nearby_raised (ev # new) = list_ex nearby_raised new"
      by (simp add: ev_def)
    have s7: "log @ ev # new = (log @ [ev]) @ new"
      by simp
    have "?P (p # ps) dealers w log (ev # new)"
      unfolding s1 s2 s3 s4 s5 s6 s7 using n by simp
    then show ?thesis by (rule exI)
  qed
qed

lemma next_pages_None:
  "next_page_token pr = None \<Longrightarrow> next_pages fuel G loc z pr dealers w = (Some (Inr dealers), w)"
  by (simp add: next_pages.simps)

lemma next_pages_0:
  "next_page_token pr = Some tok \<Longrightarrow> next_pages 0 G loc z pr dealers w = (None, w)"
  by (simp add: next_pages.simps)

lemma next_pages_raise:
  "next_page_token pr = Some tok \<Longrightarrow> places_nearby G (Page_search loc tok) w = (Inl e, w1) \<Longrightarrow>
   next_pages (Suc n) G loc z pr dealers w = (Some (Inl e), w1)"
  by (simp add: next_pages.simps)

lemma next_pages_page:
  assumes "next_page_token pr = Some tok"
    and "places_nearby G (Page_search loc tok) w = (Inr pr', w1)"
    and "process_results G (results pr') dealers z w1 = (dealers', w2)"
  shows "next_pages (Suc n) G loc z pr dealers w = next_pages n G loc z pr' dealers' w2"
proof (cases "results pr' = []")
  case True
  with assms(3) have "dealers' = dealers" "w2 = w1" by simp_all
  with assms(1,2) True show ?thesis
    by (simp add: next_pages.simps [of "Suc n"])
next
  case False
  with assms show ?thesis
    by (simp add: next_pages.simps [of "Suc n"])
qed

lemma search_query_raise:
  "places_nearby G (Keyword_search loc 15000 q ''car_dealer'') w = (Inl e, w1) \<Longrightarrow>
   search_query fuel G loc z q dealers w = (Some (Inl e), w1)"
  by (simp add: search_query_def)

lemma search_query_empty:
  "places_nearby G (Keyword_search loc 15000 q ''car_dealer'') w = (Inr pr, w1) \<Longrightarrow>
   results pr = [] \<Longrightarrow>
   search_query fuel G loc z q dealers w = (Some (Inr dealers), w1)"
  by (simp add: search_query_def)

lemma search_query_page:
  "places_nearby G (Keyword_search loc 15000 q ''car_dealer'') w = (Inr pr, w1) \<Longrightarrow>
   results pr \<noteq> [] \<Longrightarrow>
   process_results G (results pr) dealers z w1 = (dealers', w2) \<Longrightarrow>
   search_query fuel G loc z q dealers w = next_pages fuel G loc z pr dealers' w2"
  by (simp add: search_query_def)

lemma logged_places_nearby_eq:
  "places_nearby G args w = (r, w1) \<Longrightarrow>
   places_nearby (logged G) args (w, log) = (r, (w1, log @ [Nearby_call args r]))"
  by (simp add: logged_places_nearby)

lemma run_shows_Nil: "run_shows z dealers [] (Some (Inr dealers))" "run_shows z dealers [] None"
  by (simp_all add: run_shows_def discovered_Nil)

lemma run_shows_raise: "run_shows z dealers [Nearby_call args (Inl e)] (Some (Inl e))"
  by (simp add: run_shows_def)

lemma run_shows_prepend:
  assumes "\<not> list_ex nearby_raised pre" "run_shows z (dealers @ discovered z pre) new r"
  shows "run_shows z dealers (pre @ new) r"
proof (cases r)
  case None
  with assms show ?thesis by (simp add: run_shows_def)
next
  case (Some s)
  show ?thesis
  proof (cases s)
    case (Inl e)
    with Some assms show ?thesis by (simp add: run_shows_def)
  next
    case (Inr ds)
    with Some assms show ?thesis by (simp add: run_shows_def discovered_append)
  qed
qed

lemma run_shows_after_page:
  assumes "\<not> list_ex nearby_raised new_p"
    and "run_shows z (dealers @ discovered z new_p) new r"
  shows "run_shows z dealers (Nearby_call args (Inr pr) # new_p @ new) r"
proof -
  have 1: "\<not> list_ex nearby_raised (Nearby_call args (Inr pr) # new_p)"
    using assms(1) by simp
  have 2: "discovered z (Nearby_call args (Inr pr) # new_p) = discovered z new_p"
    by (simp add: discovered_Cons)
  from run_shows_prepend [OF 1, of z dealers new r] assms(2) show ?thesis
    by (simp add: 2)
qed

lemma next_pages_logged:
  fixes G :: "('w, 'l) gmaps"
  shows "\<exists>new. next_pages fuel (logged G) loc z pr dealers (w, log) =
           (fst (next_pages fuel G loc z pr dealers w),
            (snd (next_pages fuel G loc z pr dealers w), log @ new))
         \<and> run_shows z dealers new (fst (next_pages fuel G loc z pr dealers w))"
    (is "\<exists>new. ?P fuel pr dealers w log new")
proof (cases "next_page_token pr")
  case None
  have "?P fuel pr dealers w log []"
    by (simp add: next_pages_None [OF None] run_shows_Nil)
  then show ?thesis by (rule exI)
next
  case (Some tok)
  then show ?thesis
  proof (induction fuel arbitrary: pr tok dealers w log)
    case 0
    have "?P 0 pr dealers w log []"
      by (simp add: next_pages_0 [OF 0] run_shows_Nil)
    then show ?case by (rule exI)
  next
    case (Suc n)
    obtain r1 w1 where pn: "places_nearby G (Page_search loc tok) w = (r1, w1)"
      by (cases "places_nearby G (Page_search loc tok) w")
    define ev :: "'l event" where "ev = Nearby_call (Page_search loc tok) r1"
    have pnl: "places_nearby (logged G) (Page_search loc tok) (w, log) = (r1, (w1, log @ [ev]))"
      unfolding ev_def by (rule logged_places_nearby_eq [OF pn])
    show ?case
    proof (cases r1)
      case (Inl e)
      have "?P (Suc n) pr dealers w log [ev]"
        using next_pages_raise [OF Suc.prems pn [unfolded Inl]]
              next_pages_raise [OF Suc.prems pnl [unfolded Inl]]
        by (simp add: ev_def Inl run_shows_raise)
      then show ?thesis by (rule exI)
    next
      case (Inr pr')
      from process_results_logged [of G "results pr'" dealers z w1 "log @ [ev]"]
      obtain new_p where np:
        "process_results (logged G) (results pr') dealers z (w1, log @ [ev]) =
           (dealers @ discovered z new_p,
            (snd (process_results G (results pr') dealers z w1), (log @ [ev]) @ new_p))
         \<and> fst (process_results G (results pr') dealers z w1) = dealers @ discovered z new_p
         \<and> List.map_filter fetched new_p = List.map_filter hit_place_id (results pr')
         \<and> \<not> list_ex nearby_raised new_p" ..
      define ds' where "ds' = dealers @ discovered z new_p"
      define w2 where "w2 = snd (process_results G (results pr') dealers z w1)"
      have p1: "process_results G (results pr') dealers z w1 = (ds', w2)"
        using np by (simp add: ds'_def w2_def prod_eq_iff)
      have p2: "process_results (logged G) (results pr') dealers z (w1, log @ [ev]) =
                (ds', (w2, (log @ [ev]) @ new_p))"
        using np by (simp add: ds'_def w2_def)
      have nr: "\<not> list_ex nearby_raised new_p" using np by simp
      have s1: "next_pages (Suc n) G loc z pr dealers w = next_pages n G loc z pr' ds' w2"
        by (rule next_pages_page [OF Suc.prems pn [unfolded Inr] p1])
      have s2: "next_pages (Suc n) (logged G) loc z pr dealers (w, log) =
                next_pages n (logged G) loc z pr' ds' (w2, (log @ [ev]) @ new_p)"
        by (rule next_pages_page [OF Suc.prems pnl [unfolded Inr] p2])
      have "\<exists>new. ?P n pr' ds' w2 ((log @ [ev]) @ new_p) new"
      proof (cases "next_page_token pr'")
        case None
        have "?P n pr' ds' w2 ((log @ [ev]) @ new_p) []"
          by (simp add: next_pages_None [OF None] run_shows_Nil)
        then show ?thesis by (rule exI)
      next
        case (Some tok')
        then show ?thesis by (rule Suc.IH)
      qed
      then obtain new where n: "?P n pr' ds' w2 ((log @ [ev]) @ new_p) new" ..
      have s3: "log @ ev # new_p @ new = ((log @ [ev]) @ new_p) @ new" by simp
      have s4: "run_shows z dealers (ev # new_p @ new) (fst (next_pages n G loc z pr' ds' w2))"
        unfolding ev_def Inr
        by (rule run_shows_after_page [OF nr]) (use n in \<open>simp add: ds'_def\<close>)
      have "?P (Suc n) pr dealers w log (ev # new_p @ new)"
        unfolding s1 s2 s3 using n s4 by simp
      then show ?thesis by (rule exI)
    qed
  qed
qed

lemma run_shows_empty_page:
  "run_shows z dealers [Nearby_call args (Inr pr)] (Some (Inr dealers))"
  by (simp add: run_shows_def discovered_single)

lemma search_query_logged:
  fixes G :: "('w, 'l) gmaps"
  shows "\<exists>new. search_query fuel (logged G) loc z q dealers (w, log) =
           (fst (search_query fuel G loc z q dealers w),
            (snd (search_query fuel G loc z q dealers w), log @ new))
         \<and> run_shows z dealers new (fst (search_query fuel G loc z q dealers w))"
    (is "\<exists>new. ?P new")
proof -
  let ?args = "Keyword_search loc 15000 q ''car_dealer''"
  obtain r1 w1 where pn: "places_nearby G ?args w = (r1, w1)"
    by (cases "places_nearby G ?args w")
  define ev :: "'l event" where "ev = Nearby_call ?args r1"
  have pnl: "places_nearby (logged G) ?args (w, log) = (r1, (w1, log @ [ev]))"
    unfolding ev_def by (rule logged_places_nearby_eq [OF pn])
  show ?thesis
  proof (cases r1)
    case (Inl e)
    have "?P [ev]"
      using search_query_raise [OF pn [unfolded Inl]] search_query_raise [OF pnl [unfolded Inl]]
      by (simp add: ev_def Inl run_shows_raise)
    then show ?thesis by (rule exI)
  next
    case (Inr pr)
    show ?thesis
    proof (cases "results pr = []")
      case True
      have "?P [ev]"
        using search_query_empty [OF pn [unfolded Inr] True]
              search_query_empty [OF pnl [unfolded Inr] True]
        by (simp add: ev_def Inr run_shows_empty_page)
      then show ?thesis by (rule exI)
    next
      case False
      from process_results_logged [of G "results pr" dealers z w1 "log @ [ev]"]
      obtain new_p where np:
        "process_results (logged G) (results pr) dealers z (w1, log @ [ev]) =
           (dealers @ discovered z new_p,
            (snd (process_results G (results pr) dealers z w1), (log @ [ev]) @ new_p))
         \<and> fst (process_results G (results pr) dealers z w1) = dealers @ discovered z new_p
         \<and> List.map_filter fetched new_p = List.map_filter hit_place_id (results pr)
         \<and> \<not> list_ex nearby_raised new_p" ..
      define ds' where "ds' = dealers @ discovered z new_p"
      define w2 where "w2 = snd (process_results G (results pr) dealers z w1)"
      have p1: "process_results G (results pr) dealers z w1 = (ds', w2)"
        using np by (simp add: ds'_def w2_def prod_eq_iff)
      have p2: "process_results (logged G) (results pr) dealers z (w1, log @ [ev]) =
                (ds', (w2, (log @ [ev]) @ new_p))"
        using np by (simp add: ds'_def w2_def)
      have nr: "\<not> list_ex nearby_raised new_p" using np by simp
      have s1: "search_query fuel G loc z q dealers w = next_pages fuel G loc z pr ds' w2"
        by (rule search_query_page [OF pn [unfolded Inr] False p1])
      have s2: "search_query fuel (logged G) loc z q dealers (w, log) =
                next_pages fuel (logged G) loc z pr ds' (w2, (log @ [ev]) @ new_p)"
        by (rule search_query_page [OF pnl [unfolded Inr] False p2])
      from next_pages_logged [of fuel G loc z pr ds' w2 "(log @ [ev]) @ new_p"]
      obtain new where n:
        "next_pages fuel (logged G) loc z pr ds' (w2, (log @ [ev]) @ new_p) =
           (fst (next_pages fuel G loc z pr ds' w2),
            (snd (next_pages fuel G loc z pr ds' w2), ((log @ [ev]) @ new_p) @ new))
         \<and> run_shows z ds' new (fst (next_pages fuel G loc z pr ds' w2))" ..
      have s3: "log @ ev # new_p @ new = ((log @ [ev]) @ new_p) @ new" by simp
      have s4: "run_shows z dealers (ev # new_p @ new) (fst (next_pages fuel G loc z pr ds' w2))"
        unfolding ev_def Inr
        by (rule run_shows_after_page [OF nr]) (use n in \<open>simp add: ds'_def\<close>)
      have "?P (ev # new_p @ new)"
        unfolding s1 s2 s3 using n s4 by simp
      then show ?thesis by (rule exI)
    qed
  qed
qed

lemma search_all_continue:
  "search_query fuel G loc z q dealers w = (Some (Inr dealers'), w') \<Longrightarrow>
   search_all fuel G loc z (q # qs) dealers w = search_all fuel G loc z qs dealers' w'"
  by simp

lemma search_all_stop:
  "search_query fuel G loc z q dealers w = (r, w') \<Longrightarrow> (\<And>ds. r \<noteq> Some (Inr ds)) \<Longrightarrow>
   search_all fuel G loc z (q # qs) dealers w = (r, w')"
  by (cases r) (auto split: sum.splits)

lemma search_all_logged:
  fixes G :: "('w, 'l) gmaps"
  shows "\<exists>new. search_all fuel (logged G) loc z qs dealers (w, log) =
           (fst (search_all fuel G loc z qs dealers w),
            (snd (search_all fuel G loc z qs dealers w), log @ new))
         \<and> run_shows z dealers new (fst (search_all fuel G loc z qs dealers w))"
    (is "\<exists>new. ?P qs dealers w log new")
proof (induction qs arbitrary: dealers w log)
  case Nil
  have "?P [] dealers w log []" by (simp add: run_shows_Nil)
  then show ?case by (rule exI)
next
  case (Cons q qs)
  from search_query_logged [of fuel G loc z q dealers w log]
  obtain new1 where n1:
    "search_query fuel (logged G) loc z q dealers (w, log) =
       (fst (search_query fuel G loc z q dealers w),
        (snd (search_query fuel G loc z q dealers w), log @ new1))
     \<and> run_shows z dealers new1 (fst (search_query fuel G loc z q dealers w))" ..
  obtain r1 w1 where sq: "search_query fuel G loc z q dealers w = (r1, w1)"
    by (cases "search_query fuel G loc z q dealers w")
  from n1 sq have sql: "search_query fuel (logged G) loc z q dealers (w, log) = (r1, (w1, log @ new1))"
    and rs: "run_shows z dealers new1 r1" by simp_all
  show ?case
  proof (cases "\<exists>ds. r1 = Some (Inr ds)")
    case True
    then obtain ds1 where r1: "r1 = Some (Inr ds1)" ..
    from rs r1 have nr: "\<not> list_ex nearby_raised new1"
      and ds1: "ds1 = dealers @ discovered z new1" by (simp_all add: run_shows_def)
    from Cons.IH [of ds1 w1 "log @ new1"] obtain new where n: "?P qs ds1 w1 (log @ new1) new" ..
    have s1: "search_all fuel G loc z (q # qs) dealers w = search_all fuel G loc z qs ds1 w1"
      by (rule search_all_continue [OF sq [unfolded r1]])
    have s2: "search_all fuel (logged G) loc z (q # qs) dealers (w, log) =
              search_all fuel (logged G) loc z qs ds1 (w1, log @ new1)"
      by (rule search_all_continue [OF sql [unfolded r1]])
    have s3: "log @ new1 @ new = (log @ new1) @ new" by simp
    have s4: "run_shows z dealers (new1 @ new) (fst (search_all fuel G loc z qs ds1 w1))"
      by (rule run_shows_prepend [OF nr]) (use n ds1 in simp)
    have "?P (q # qs) dealers w log (new1 @ new)"
      unfolding s1 s2 s3 using n s4 by simp
    then show ?thesis by (rule exI)
  next
    case False
    then have no: "\<And>ds. r1 \<noteq> Some (Inr ds)" by blast
    have "?P (q # qs) dealers w log new1"
      using search_all_stop [OF sq no] search_all_stop [OF sql no] rs by simp
    then show ?thesis by (rule exI)
  qed
qed

lemma logged_geocode_eq:
  "geocode G a w = (g, w1) \<Longrightarrow>
   geocode (logged G) a (w, log) = (g, (w1, log @ [Geocode_call a g]))"
  by (simp add: logged_geocode)

lemma get_dealer_info_unlocated:
  assumes "geocode G z w = (g, w1)" "\<And>loc rest. g \<noteq> Inr (Located loc # rest)"
  shows "\<exists>f. get_dealer_info fuel G z w = (Some (Inl f), w1) \<and> search_shows z g [] (Some (Inl f))"
proof (cases g)
  case (Inl e)
  with assms(1) show ?thesis by (simp add: get_dealer_info_def search_shows_def)
next
  case (Inr entries)
  show ?thesis
  proof (cases entries)
    case Nil
    with Inr assms(1) show ?thesis by (simp add: get_dealer_info_def search_shows_def)
  next
    case (Cons entry rest)
    with Inr assms(2) have "entry = Lacks_geometry \<or> entry = Lacks_location"
      by (cases entry) auto
    then show ?thesis
    proof
      assume "entry = Lacks_geometry"
      with Cons Inr assms(1) show ?thesis by (simp add: get_dealer_info_def search_shows_def)
    next
      assume "entry = Lacks_location"
      with Cons Inr assms(1) show ?thesis by (simp add: get_dealer_info_def search_shows_def)
    qed
  qed
qed

lemma get_dealer_info_located:
  assumes "geocode G z w = (Inr (Located loc # rest), w1)"
    and "search_all fuel G loc z search_queries [] w1 = (r, w2)"
  shows "get_dealer_info fuel G z w =
           ((case r of None \<Rightarrow> None
             | Some (Inl e) \<Rightarrow> Some (Inl (Error_finding_dealer_information e))
             | Some (Inr dealers) \<Rightarrow> Some (Inr (unique_dealers dealers))), w2)"
  using assms by (simp add: get_dealer_info_def split: option.split sum.split)

lemma search_shows_located:
  assumes "run_shows z [] new r"
  shows "search_shows z (Inr (Located loc # rest)) new
           (case r of None \<Rightarrow> None
            | Some (Inl e) \<Rightarrow> Some (Inl (Error_finding_dealer_information e))
            | Some (Inr dealers) \<Rightarrow> Some (Inr (unique_dealers dealers)))"
proof (cases r)
  case None
  with assms show ?thesis by (simp add: search_shows_def run_shows_def)
next
  case (Some s)
  show ?thesis
  proof (cases s)
    case (Inl e)
    with Some assms show ?thesis
      by (simp add: search_shows_def run_shows_def split: event.splits sum.splits)
  next
    case (Inr ds)
    with Some assms show ?thesis by (simp add: search_shows_def run_shows_def)
  qed
qed

text \<open>
  The log of a whole search: the geocoding request, then the requests of the queries; and
  the run against the wrapped provider returns what the run against the provider does.
\<close>

lemma get_dealer_info_logged:
  fixes G :: "('w, 'l) gmaps"
  shows "\<exists>new. get_dealer_info fuel (logged G) z (w, log) =
           (fst (get_dealer_info fuel G z w),
            (snd (get_dealer_info fuel G z w),
             log @ Geocode_call z (fst (geocode G z w)) # new))
         \<and> search_shows z (fst (geocode G z w)) new (fst (get_dealer_info fuel G z w))"
    (is "\<exists>new. ?P new")
proof -
  obtain g w1 where gc: "geocode G z w = (g, w1)" by (cases "geocode G z w")
  define ev :: "'l event" where "ev = Geocode_call z g"
  have gcl: "geocode (logged G) z (w, log) = (g, (w1, log @ [ev]))"
    unfolding ev_def by (rule logged_geocode_eq [OF gc])
  show ?thesis
  proof (cases "\<exists>loc rest. g = Inr (Located loc # rest)")
    case False
    then have no: "\<And>loc rest. g \<noteq> Inr (Located loc # rest)" by blast
    from get_dealer_info_unlocated [OF gc no, of fuel] obtain f where
      f: "get_dealer_info fuel G z w = (Some (Inl f), w1) \<and> search_shows z g [] (Some (Inl f))" ..
    from get_dealer_info_unlocated [OF gcl no, of fuel] obtain f' where
      f': "get_dealer_info fuel (logged G) z (w, log) = (Some (Inl f'), (w1, log @ [ev]))
          \<and> search_shows z g [] (Some (Inl f'))" ..
    from f f' no have "f' = f"
      by (cases g) (auto simp: search_shows_def split: list.splits option.splits geocode_entry.splits)
    with f f' have "?P []" by (simp add: gc ev_def)
    then show ?thesis by (rule exI)
  next
    case True
    then obtain loc rest where g: "g = Inr (Located loc # rest)" by blast
    obtain r w2 where sa: "search_all fuel G loc z search_queries [] w1 = (r, w2)"
      by (cases "search_all fuel G loc z search_queries [] w1")
    from search_all_logged [of fuel G loc z search_queries "[]" w1 "log @ [ev]"]
    obtain new where n:
      "search_all fuel (logged G) loc z search_queries [] (w1, log @ [ev]) =
         (fst (search_all fuel G loc z search_queries [] w1),
          (snd (search_all fuel G loc z search_queries [] w1), (log @ [ev]) @ new))
       \<and> run_shows z [] new (fst (search_all fuel G loc z search_queries [] w1))" ..
    from n sa have sal:
      "search_all fuel (logged G) loc z search_queries [] (w1, log @ [ev]) =
         (r, (w2, (log @ [ev]) @ new))"
      and rs: "run_shows z [] new r" by simp_all
    have "?P new"
      using get_dealer_info_located [OF gc [unfolded g] sa]
            get_dealer_info_located [OF gcl [unfolded g] sal]
            search_shows_located [OF rs, of loc rest]
      by (simp add: gc g ev_def)
    then show ?thesis by (rule exI)
  qed
qed

text \<open>The same, for a search that starts with an empty log.\<close>

lemma get_dealer_info_log:
  fixes G :: "('w, 'l) gmaps"
  assumes "get_dealer_info fuel (logged G) z (w, []) = (r, (w', log))"
  shows "get_dealer_info fuel G z w = (r, w')"
    and "\<exists>new. log = Geocode_call z (fst (geocode G z w)) # new
           \<and> search_shows z (fst (geocode G z w)) new r"
proof -
  from get_dealer_info_logged [of fuel G z w "[]"] obtain new where n:
    "get_dealer_info fuel (logged G) z (w, []) =
       (fst (get_dealer_info fuel G z w),
        (snd (get_dealer_info fuel G z w), [] @ Geocode_call z (fst (geocode G z w)) # new))
     \<and> search_shows z (fst (geocode G z w)) new (fst (get_dealer_info fuel G z w))" ..
  with assms show "get_dealer_info fuel G z w = (r, w')"
    by (simp add: prod_eq_iff)
  from n assms have "log = Geocode_call z (fst (geocode G z w)) # new
           \<and> search_shows z (fst (geocode G z w)) new r" by simp
  then show "\<exists>new. log = Geocode_call z (fst (geocode G z w)) # new
           \<and> search_shows z (fst (geocode G z w)) new r" by (rule exI)
qed

subsection \<open>The dictionary that removes duplicates\<close>

lemma dict_set_keys:
  "map fst (dict_set items k v) =
     (if k \<in> set (map fst items) then map fst items else map fst items @ [k])"
  by (induction items k v rule: dict_set.induct) (auto simp: image_iff)

lemma dict_set_distinct:
  "distinct (map fst items) \<Longrightarrow> distinct (map fst (dict_set items k v))"
  by (simp add: dict_set_keys)

lemma dict_set_map_of: "map_of (dict_set items k v) = (map_of items)(k \<mapsto> v)"
  by (induction items k v rule: dict_set.induct) (auto simp: fun_eq_iff)

lemma dict_set_subset: "set (dict_set items k v) \<subseteq> insert (k, v) (set items)"
  by (induction items k v rule: dict_set.induct) (auto split: if_splits)

lemma fold_dict_distinct:
  "distinct (map fst items) \<Longrightarrow>
   distinct (map fst (foldl (\<lambda>items d. dict_set items (place_id d) d) items ds))"
  by (induction ds arbitrary: items) (simp_all add: dict_set_distinct)

lemma fold_dict_keys:
  "set (map fst (foldl (\<lambda>items d. dict_set items (place_id d) d) items ds)) =
   set (map fst items) \<union> place_id ` set ds"
proof (induction ds arbitrary: items)
  case Nil
  then show ?case by simp
next
  case (Cons d ds)
  have "set (map fst (dict_set items (place_id d) d)) = insert (place_id d) (set (map fst items))"
    by (auto simp: dict_set_keys)
  with Cons.IH [of "dict_set items (place_id d) d"] show ?case by simp
qed

lemma fold_dict_keyed:
  "\<forall>(k, v) \<in> set items. place_id v = k \<Longrightarrow>
   \<forall>(k, v) \<in> set (foldl (\<lambda>items d. dict_set items (place_id d) d) items ds). place_id v = k"
proof (induction ds arbitrary: items)
  case Nil
  then show ?case by simp
next
  case (Cons d ds)
  have "\<forall>(k, v) \<in> set (dict_set items (place_id d) d). place_id v = k"
    using Cons.prems dict_set_subset [of items "place_id d" d] by auto
  from Cons.IH [OF this] show ?case by simp
qed

lemma fold_dict_values:
  "snd ` set (foldl (\<lambda>items d. dict_set items (place_id d) d) items ds)
     \<subseteq> snd ` set items \<union> set ds"
proof (induction ds arbitrary: items)
  case Nil
  then show ?case by simp
next
  case (Cons d ds)
  have "snd ` set (dict_set items (place_id d) d) \<subseteq> insert d (snd ` set items)"
    using dict_set_subset [of items "place_id d" d] by force
  with Cons.IH [of "dict_set items (place_id d) d"] show ?case by auto
qed

lemma fold_dict_keeps:
  "k \<notin> place_id ` set ds \<Longrightarrow>
   map_of (foldl (\<lambda>items d. dict_set items (place_id d) d) items ds) k = map_of items k"
  by (induction ds arbitrary: items) (simp_all add: dict_set_map_of)

lemma fold_dict_last:
  assumes "place_id d \<notin> place_id ` set ys"
  shows "(place_id d, d) \<in> set (foldl (\<lambda>items d. dict_set items (place_id d) d) items (xs @ d # ys))"
proof -
  let ?f = "\<lambda>items d. dict_set items (place_id d) d"
  have "map_of (foldl ?f items (xs @ d # ys)) (place_id d) =
        map_of (dict_set (foldl ?f items xs) (place_id d) d) (place_id d)"
    using fold_dict_keeps [OF assms] by simp
  also have "\<dots> = Some d" by (simp add: dict_set_map_of)
  finally show ?thesis by (rule map_of_SomeD)
qed

lemma unique_dealers_place_ids:
  "map place_id (unique_dealers dealers) =
   map fst (foldl (\<lambda>items d. dict_set items (place_id d) d) [] dealers)"
proof -
  have "\<forall>(k, v) \<in> set (foldl (\<lambda>items d. dict_set items (place_id d) d) [] dealers). place_id v = k"
    by (rule fold_dict_keyed) simp
  then show ?thesis by (auto simp: unique_dealers_def)
qed

lemma unique_dealers_distinct: "distinct (map place_id (unique_dealers dealers))"
  unfolding unique_dealers_place_ids by (rule fold_dict_distinct) simp

lemma unique_dealers_ids: "place_id ` set (unique_dealers dealers) = place_id ` set dealers"
  using fold_dict_keys [of "[]" dealers] unique_dealers_place_ids [of dealers]
  by (metis list.set_map list.simps(8) empty_set sup_bot_left)

lemma unique_dealers_subset: "set (unique_dealers dealers) \<subseteq> set dealers"
  using fold_dict_values [of "[]" dealers] by (simp add: unique_dealers_def)

lemma unique_dealers_last:
  "place_id d \<notin> place_id ` set ys \<Longrightarrow> d \<in> set (unique_dealers (xs @ d # ys))"
  using fold_dict_last [of d ys "[]" xs] by (force simp: unique_dealers_def)

lemma unique_dealers_Nil: "unique_dealers [] = []"
  by (simp add: unique_dealers_def)

subsection \<open>The dealers a log stands for\<close>

lemma discovery_match:
  "discovery z ev = Some d \<Longrightarrow> \<exists>a. full_address d = Some a \<and> extract_zipcode a = Some z"
  by (cases "(z, ev)" rule: discovery.cases) (auto split: option.splits if_splits)

lemma discovered_match:
  "d \<in> set (discovered z log) \<Longrightarrow> \<exists>a. full_address d = Some a \<and> extract_zipcode a = Some z"
  by (auto simp: discovered_def List.map_filter_def dest: discovery_match)

lemma discovered_Geocode: "discovered z (Geocode_call a g # new) = discovered z new"
  by (simp add: discovered_Cons)

subsection \<open>Enough fuel\<close>

lemma process_results_measure:
  fixes m :: "'w \<Rightarrow> nat"
  assumes "\<And>pid fs w. m (snd (place G pid fs w)) \<le> m w"
  shows "m (snd (process_results G ps dealers z w)) \<le> m w"
proof (induction ps arbitrary: dealers w)
  case Nil
  then show ?case by simp
next
  case (Cons p ps)
  show ?case
  proof (cases "hit_place_id p")
    case None
    with Cons.IH [of dealers w] show ?thesis by simp
  next
    case (Some pid)
    obtain r w1 where pl: "place G pid detail_fields w = (r, w1)"
      by (cases "place G pid detail_fields w")
    from assms [of pid detail_fields w] pl have "m w1 \<le> m w" by simp
    moreover have "m (snd (process_results G (p # ps) dealers z w)) \<le> m w1"
      using Cons.IH [of "dealers @ discovered z [Place_call pid detail_fields r :: unit event]" w1]
      by (simp only: process_results_step [OF Some pl, of ps dealers z, where ?'c = unit])
    ultimately show ?thesis by simp
  qed
qed

lemma next_pages_returns:
  assumes "pagination_bounded G m"
  shows "m w < fuel \<Longrightarrow> fst (next_pages fuel G loc z pr dealers w) \<noteq> None"
proof (induction fuel arbitrary: pr dealers w)
  case 0
  then show ?case by simp
next
  case (Suc n)
  show ?case
  proof (cases "next_page_token pr")
    case None
    then show ?thesis by (simp add: next_pages_None)
  next
    case (Some tok)
    obtain r1 w1 where pn: "places_nearby G (Page_search loc tok) w = (r1, w1)"
      by (cases "places_nearby G (Page_search loc tok) w")
    show ?thesis
    proof (cases r1)
      case (Inl e)
      with next_pages_raise [OF Some pn [unfolded Inl]] show ?thesis by simp
    next
      case (Inr pr')
      obtain ds' w2 where p: "process_results G (results pr') dealers z w1 = (ds', w2)"
        by (cases "process_results G (results pr') dealers z w1")
      have s: "next_pages (Suc n) G loc z pr dealers w = next_pages n G loc z pr' ds' w2"
        by (rule next_pages_page [OF Some pn [unfolded Inr] p])
      show ?thesis
      proof (cases "next_page_token pr'")
        case None
        then show ?thesis unfolding s by (simp add: next_pages_None)
      next
        case (Some tok')
        with assms pn Inr have "m w1 < m w"
          unfolding pagination_bounded_def by blast
        moreover have "m w2 \<le> m w1"
          using process_results_measure [of m G "results pr'" dealers z w1] assms p
          unfolding pagination_bounded_def by simp
        ultimately have "m w2 < n" using Suc.prems by simp
        then show ?thesis unfolding s by (rule Suc.IH)
      qed
    qed
  qed
qed

lemma next_pages_more_fuel:
  "fst (next_pages n G loc z pr dealers w) \<noteq> None \<Longrightarrow>
   next_pages (n + k) G loc z pr dealers w = next_pages n G loc z pr dealers w"
proof (induction n arbitrary: pr dealers w)
  case 0
  show ?case
  proof (cases "next_page_token pr")
    case None
    then show ?thesis by (simp add: next_pages_None)
  next
    case (Some tok)
    with 0 show ?thesis by (simp add: next_pages_0)
  qed
next
  case (Suc n)
  show ?case
  proof (cases "next_page_token pr")
    case None
    then show ?thesis by (simp add: next_pages_None)
  next
    case (Some tok)
    obtain r1 w1 where pn: "places_nearby G (Page_search loc tok) w = (r1, w1)"
      by (cases "places_nearby G (Page_search loc tok) w")
    have sk: "Suc n + k = Suc (n + k)" by simp
    show ?thesis
    proof (cases r1)
      case (Inl e)
      show ?thesis
        unfolding sk next_pages_raise [OF Some pn [unfolded Inl]] by (rule refl)
    next
      case (Inr pr')
      obtain ds' w2 where p: "process_results G (results pr') dealers z w1 = (ds', w2)"
        by (cases "process_results G (results pr') dealers z w1")
      from Suc.prems have "fst (next_pages n G loc z pr' ds' w2) \<noteq> None"
        unfolding next_pages_page [OF Some pn [unfolded Inr] p] .
      from Suc.IH [OF this] show ?thesis
        unfolding sk next_pages_page [OF Some pn [unfolded Inr] p] .
    qed
  qed
qed

lemma search_query_more_fuel:
  assumes "fst (search_query n G loc z q dealers w) \<noteq> None"
  shows "search_query (n + k) G loc z q dealers w = search_query n G loc z q dealers w"
proof -
  let ?args = "Keyword_search loc 15000 q ''car_dealer''"
  obtain r1 w1 where pn: "places_nearby G ?args w = (r1, w1)"
    by (cases "places_nearby G ?args w")
  show ?thesis
  proof (cases r1)
    case (Inl e)
    show ?thesis unfolding search_query_raise [OF pn [unfolded Inl]] by (rule refl)
  next
    case (Inr pr)
    show ?thesis
    proof (cases "results pr = []")
      case True
      show ?thesis unfolding search_query_empty [OF pn [unfolded Inr] True] by (rule refl)
    next
      case False
      obtain ds' w2 where p: "process_results G (results pr) dealers z w1 = (ds', w2)"
        by (cases "process_results G (results pr) dealers z w1")
      from assms have "fst (next_pages n G loc z pr ds' w2) \<noteq> None"
        unfolding search_query_page [OF pn [unfolded Inr] False p] .
      from next_pages_more_fuel [OF this] show ?thesis
        unfolding search_query_page [OF pn [unfolded Inr] False p] .
    qed
  qed
qed

lemma search_query_returns:
  assumes "pagination_bounded G m"
  shows "\<exists>n. fst (search_query n G loc z q dealers w) \<noteq> None"
proof -
  let ?args = "Keyword_search loc 15000 q ''car_dealer''"
  obtain r1 w1 where pn: "places_nearby G ?args w = (r1, w1)"
    by (cases "places_nearby G ?args w")
  show ?thesis
  proof (cases r1)
    case (Inl e)
    show ?thesis unfolding search_query_raise [OF pn [unfolded Inl]] by simp
  next
    case (Inr pr)
    show ?thesis
    proof (cases "results pr = []")
      case True
      show ?thesis unfolding search_query_empty [OF pn [unfolded Inr] True] by simp
    next
      case False
      obtain ds' w2 where p: "process_results G (results pr) dealers z w1 = (ds', w2)"
        by (cases "process_results G (results pr) dealers z w1")
      have "fst (next_pages (Suc (m w2)) G loc z pr ds' w2) \<noteq> None"
        by (rule next_pages_returns [OF assms]) simp
      then have "fst (search_query (Suc (m w2)) G loc z q dealers w) \<noteq> None"
        unfolding search_query_page [OF pn [unfolded Inr] False p] .
      then show ?thesis by (rule exI)
    qed
  qed
qed

lemma search_all_more_fuel:
  "fst (search_all n G loc z qs dealers w) \<noteq> None \<Longrightarrow>
   search_all (n + k) G loc z qs dealers w = search_all n G loc z qs dealers w"
proof (induction qs arbitrary: dealers w)
  case Nil
  then show ?case by simp
next
  case (Cons q qs)
  obtain r1 w1 where sq: "search_query n G loc z q dealers w = (r1, w1)"
    by (cases "search_query n G loc z q dealers w")
  show ?case
  proof (cases "\<exists>ds. r1 = Some (Inr ds)")
    case True
    then obtain ds1 where r1: "r1 = Some (Inr ds1)" ..
    have "fst (search_query n G loc z q dealers w) \<noteq> None" using sq r1 by simp
    from search_query_more_fuel [OF this, of k] sq r1
    have sqk: "search_query (n + k) G loc z q dealers w = (Some (Inr ds1), w1)" by simp
    from Cons.prems have "fst (search_all n G loc z qs ds1 w1) \<noteq> None"
      unfolding search_all_continue [OF sq [unfolded r1]] .
    from Cons.IH [OF this] show ?thesis
      unfolding search_all_continue [OF sq [unfolded r1]] search_all_continue [OF sqk] .
  next
    case False
    then have no: "\<And>ds. r1 \<noteq> Some (Inr ds)" by blast
    from Cons.prems have "r1 \<noteq> None"
      unfolding search_all_stop [OF sq no] by simp
    then have "fst (search_query n G loc z q dealers w) \<noteq> None" using sq by simp
    from search_query_more_fuel [OF this, of k] sq
    have sqk: "search_query (n + k) G loc z q dealers w = (r1, w1)" by simp
    show ?thesis
      unfolding search_all_stop [OF sq no] search_all_stop [OF sqk no] by (rule refl)
  qed
qed

lemma search_all_returns:
  assumes "pagination_bounded G m"
  shows "\<exists>n. fst (search_all n G loc z qs dealers w) \<noteq> None"
proof (induction qs arbitrary: dealers w)
  case Nil
  show ?case by simp
next
  case (Cons q qs)
  from search_query_returns [OF assms, of loc z q dealers w] obtain n1 where
    n1: "fst (search_query n1 G loc z q dealers w) \<noteq> None" ..
  obtain r1 w1 where sq: "search_query n1 G loc z q dealers w = (r1, w1)"
    by (cases "search_query n1 G loc z q dealers w")
  show ?case
  proof (cases "\<exists>ds. r1 = Some (Inr ds)")
    case True
    then obtain ds1 where r1: "r1 = Some (Inr ds1)" ..
    from Cons.IH [of ds1 w1] obtain n2 where
      n2: "fst (search_all n2 G loc z qs ds1 w1) \<noteq> None" ..
    from search_query_more_fuel [OF n1, of n2] sq r1
    have sqk: "search_query (n1 + n2) G loc z q dealers w = (Some (Inr ds1), w1)" by simp
    have c: "n1 + n2 = n2 + n1" by simp
    have "search_all (n1 + n2) G loc z qs ds1 w1 = search_all n2 G loc z qs ds1 w1"
      unfolding c by (rule search_all_more_fuel [OF n2])
    with n2 have "fst (search_all (n1 + n2) G loc z (q # qs) dealers w) \<noteq> None"
      unfolding search_all_continue [OF sqk] by simp
    then show ?thesis by (rule exI)
  next
    case False
    then have no: "\<And>ds. r1 \<noteq> Some (Inr ds)" by blast
    from n1 sq have "fst (search_all n1 G loc z (q # qs) dealers w) \<noteq> None"
      unfolding search_all_stop [OF sq no] by simp
    then show ?thesis by (rule exI)
  qed
qed

text \<open>
  With bounded pagination a located search returns once the fuel is enough, and more fuel
  does not change what it returns.
\<close>

lemma get_dealer_info_returns:
  assumes "pagination_bounded G m"
  shows "\<exists>n. \<forall>fuel\<ge>n. fst (get_dealer_info fuel G z w) \<noteq> None"
proof -
  obtain g w1 where gc: "geocode G z w = (g, w1)" by (cases "geocode G z w")
  show ?thesis
  proof (cases "\<exists>loc rest. g = Inr (Located loc # rest)")
    case False
    then have no: "\<And>loc rest. g \<noteq> Inr (Located loc # rest)" by blast
    have "\<forall>fuel\<ge>0. fst (get_dealer_info fuel G z w) \<noteq> None"
    proof (intro allI impI)
      fix fuel
      from get_dealer_info_unlocated [OF gc no, of fuel]
      show "fst (get_dealer_info fuel G z w) \<noteq> None" by auto
    qed
    then show ?thesis by (rule exI)
  next
    case True
    then obtain loc rest where g: "g = Inr (Located loc # rest)" by blast
    from search_all_returns [OF assms, of loc z search_queries "[]" w1] obtain n where
      n: "fst (search_all n G loc z search_queries [] w1) \<noteq> None" ..
    have "\<forall>fuel\<ge>n. fst (get_dealer_info fuel G z w) \<noteq> None"
    proof (intro allI impI)
      fix fuel :: nat assume "n \<le> fuel"
      then have f: "fuel = n + (fuel - n)" by simp
      obtain r w2 where sa: "search_all n G loc z search_queries [] w1 = (r, w2)"
        by (cases "search_all n G loc z search_queries [] w1")
      from search_all_more_fuel [OF n, of "fuel - n"] sa f
      have "search_all fuel G loc z search_queries [] w1 = (r, w2)" by simp
      from get_dealer_info_located [OF gc [unfolded g] this] n sa
      show "fst (get_dealer_info fuel G z w) \<noteq> None"
        by (simp split: option.splits sum.splits)
    qed
    then show ?thesis by (rule exI)
  qed
qed

lemma get_dealer_info_more_fuel:
  assumes "fst (get_dealer_info n G z w) \<noteq> None"
  shows "get_dealer_info (n + k) G z w = get_dealer_info n G z w"
proof -
  obtain g w1 where gc: "geocode G z w = (g, w1)" by (cases "geocode G z w")
  show ?thesis
  proof (cases "\<exists>loc rest. g = Inr (Located loc # rest)")
    case False
    then have no: "\<And>loc rest. g \<noteq> Inr (Located loc # rest)" by blast
    from get_dealer_info_unlocated [OF gc no, of n] obtain f where
      f: "get_dealer_info n G z w = (Some (Inl f), w1) \<and> search_shows z g [] (Some (Inl f))" ..
    from get_dealer_info_unlocated [OF gc no, of "n + k"] obtain f' where
      f': "get_dealer_info (n + k) G z w = (Some (Inl f'), w1)
           \<and> search_shows z g [] (Some (Inl f'))" ..
    from f f' no have "f' = f"
      by (cases g) (auto simp: search_shows_def split: list.splits option.splits geocode_entry.splits)
    with f f' show ?thesis by simp
  next
    case True
    then obtain loc rest where g: "g = Inr (Located loc # rest)" by blast
    obtain r w2 where sa: "search_all n G loc z search_queries [] w1 = (r, w2)"
      by (cases "search_all n G loc z search_queries [] w1")
    from assms get_dealer_info_located [OF gc [unfolded g] sa] have "r \<noteq> None"
      by (auto split: option.splits)
    with sa have "fst (search_all n G loc z search_queries [] w1) \<noteq> None" by simp
    from search_all_more_fuel [OF this, of k] sa
    have sak: "search_all (n + k) G loc z search_queries [] w1 = (r, w2)" by simp
    show ?thesis
      unfolding get_dealer_info_located [OF gc [unfolded g] sa]
                get_dealer_info_located [OF gc [unfolded g] sak] by (rule refl)
  qed
qed

lemma search_shows_returned:
  assumes "search_shows z (Inr (Located loc # rest)) new r" "r \<noteq> None"
    and "\<not> list_ex nearby_raised new"
  shows "r = Some (Inr (unique_dealers (discovered z new)))"
proof -
  from assms(2) obtain s where r: "r = Some s" by (cases r) auto
  show ?thesis
  proof (cases s)
    case (Inr ds)
    with r assms(1) show ?thesis by (simp add: search_shows_def)
  next
    case (Inl f)
    with r assms(1) have ne: "new \<noteq> []" and "case last new of
          Nearby_call args (Inl e) \<Rightarrow> f = Error_finding_dealer_information e | _ \<Rightarrow> False"
      by (simp_all add: search_shows_def)
    then have "nearby_raised (last new)"
      by (cases "last new") (auto split: sum.splits)
    with ne have "list_ex nearby_raised new"
      unfolding list_ex_iff using last_in_set by blast
    with assms(3) show ?thesis by simp
  qed
qed

lemma search_shows_Inr:
  assumes "search_shows z g new (Some (Inr ds))"
  shows "\<not> list_ex nearby_raised new" "ds = unique_dealers (discovered z new)"
    "\<exists>loc rest. g = Inr (Located loc # rest)"
  using assms
  by (auto simp: search_shows_def split: sum.splits list.splits option.splits geocode_entry.splits)

lemma search_shows_raised:
  assumes "search_shows z g new r" "list_ex nearby_raised new"
  shows "\<exists>e args. r = Some (Inl (Error_finding_dealer_information e))
           \<and> last new = Nearby_call args (Inl e)"
proof -
  from assms have ne: "new \<noteq> []" by auto
  with assms obtain loc rest where g: "g = Inr (Located loc # rest)"
    by (auto simp: search_shows_def split: sum.splits list.splits option.splits geocode_entry.splits)
  show ?thesis
  proof (cases r)
    case None
    with assms g show ?thesis by (simp add: search_shows_def)
  next
    case (Some s)
    show ?thesis
    proof (cases s)
      case (Inr ds)
      with Some assms g show ?thesis by (simp add: search_shows_def)
    next
      case (Inl f)
      with Some assms(1) g have "case last new of
          Nearby_call args (Inl e) \<Rightarrow> f = Error_finding_dealer_information e | _ \<Rightarrow> False"
        by (simp add: search_shows_def)
      then obtain args e where "last new = Nearby_call args (Inl e)"
        "f = Error_finding_dealer_information e"
        by (cases "last new") (auto split: sum.splits)
      with Some Inl show ?thesis by simp
    qed
  qed
qed

lemma process_results_discovered:
  fixes G :: "('w, 'l) gmaps"
  shows "\<exists>new :: 'l event list.
           fst (process_results G ps dealers z w) = dealers @ discovered z new"
proof -
  from process_results_logged [of G ps dealers z w "[]"] obtain new where n:
    "process_results (logged G) ps dealers z (w, []) =
           (dealers @ discovered z new, (snd (process_results G ps dealers z w), [] @ new))
         \<and> fst (process_results G ps dealers z w) = dealers @ discovered z new
         \<and> List.map_filter fetched new = List.map_filter hit_place_id ps
         \<and> \<not> list_ex nearby_raised new" ..
  from n [THEN conjunct2, THEN conjunct1] show ?thesis by (rule exI)
qed

lemma get_dealer_info_shows:
  fixes G :: "('w, 'l) gmaps"
  shows "\<exists>new :: 'l event list.
           search_shows z (fst (geocode G z w)) new (fst (get_dealer_info fuel G z w))"
proof -
  from get_dealer_info_logged [of fuel G z w "[]"] obtain new where n:
    "get_dealer_info fuel (logged G) z (w, []) =
           (fst (get_dealer_info fuel G z w),
            (snd (get_dealer_info fuel G z w),
             [] @ Geocode_call z (fst (geocode G z w)) # new))
         \<and> search_shows z (fst (geocode G z w)) new (fst (get_dealer_info fuel G z w))" ..
  from n [THEN conjunct2] show ?thesis by (rule exI)
qed

lemmas run_defs =
  get_dealer_info_def search_queries_def search_query_def next_pages.simps unique_dealers_def
  extract_zipcode_def lead_class_def trail_class_def re_space_def re_digit_def
  sample_provider_def hits_def dealer_at_def logged_def detail_fields_def
  discovered_def

section \<open>Claims about the dealer search\<close>

text \<open>
  Claim C3. \<open>process_results\<close> adds a dealer only if the postal code extracted from its
  formatted address is the target: every dealer of the list it returns was in the list
  before or has that property. So has every dealer that \<open>get_dealer_info\<close> returns.
\<close>

theorem only_target_zipcode_kept:
  fixes G :: "('w, 'l) gmaps"
  shows "(\<forall>d \<in> set (fst (process_results G ps dealers z w)).
            d \<in> set dealers \<or> (\<exists>a. full_address d = Some a \<and> extract_zipcode a = Some z))
       \<and> (\<forall>ds. fst (get_dealer_info fuel G z w) = Some (Inr ds) \<longrightarrow>
            (\<forall>d \<in> set ds. \<exists>a. full_address d = Some a \<and> extract_zipcode a = Some z))"
proof (intro conjI allI impI ballI)
  fix d assume d: "d \<in> set (fst (process_results G ps dealers z w))"
  from process_results_discovered [of G ps dealers z w] obtain new :: "'l event list" where
    "fst (process_results G ps dealers z w) = dealers @ discovered z new" ..
  with d have "d \<in> set dealers \<or> d \<in> set (discovered z new)" by auto
  then show "d \<in> set dealers \<or> (\<exists>a. full_address d = Some a \<and> extract_zipcode a = Some z)"
    using discovered_match by blast
next
  fix ds d assume r: "fst (get_dealer_info fuel G z w) = Some (Inr ds)" and d: "d \<in> set ds"
  from get_dealer_info_shows [of z G w fuel] obtain new :: "'l event list" where
    "search_shows z (fst (geocode G z w)) new (fst (get_dealer_info fuel G z w))" ..
  with r have "search_shows z (fst (geocode G z w)) new (Some (Inr ds))" by simp
  then have "ds = unique_dealers (discovered z new)" by (rule search_shows_Inr)
  with d unique_dealers_subset have "d \<in> set (discovered z new)" by blast
  then show "\<exists>a. full_address d = Some a \<and> extract_zipcode a = Some z"
    by (rule discovered_match)
qed

text \<open>
  The theorem at the target 20136 with the two candidates \<open>A\<close>, whose address has the code
  20136, and \<open>B\<close>, whose address has 20135: only \<open>A\<close> is returned.
\<close>

theorem only_target_zipcode_kept_witness:
  "fst (get_dealer_info 0 two_candidates ''20136'' 0) =
     Some (Inr [\<lparr>business_name = Some ''Alpha Autos'',
                 full_address = Some ''1 Main St, Gainesville, VA 20136, USA'',
                 phone_number = None, website = None, place_id = ''A''\<rparr>])
   \<and> extract_zipcode ''1 Main St, Gainesville, VA 20136, USA'' = Some ''20136''
   \<and> extract_zipcode ''2 Main St, Haymarket, VA 20135, USA'' = Some ''20135''
   \<and> (\<exists>a. full_address \<lparr>business_name = Some ''Alpha Autos'',
                 full_address = Some ''1 Main St, Gainesville, VA 20136, USA'',
                 phone_number = None, website = None, place_id = ''A''\<rparr> = Some a
          \<and> extract_zipcode a = Some ''20136'')"
proof -
  let ?A = "\<lparr>business_name = Some ''Alpha Autos'',
                 full_address = Some ''1 Main St, Gainesville, VA 20136, USA'',
                 phone_number = None, website = None, place_id = ''A''\<rparr>"
  have 1: "fst (get_dealer_info 0 two_candidates ''20136'' 0) = Some (Inr [?A])"
    by (simp add: two_candidates_def run_defs)
  have 2: "extract_zipcode ''1 Main St, Gainesville, VA 20136, USA'' = Some ''20136''"
    by (simp add: run_defs)
  have 3: "extract_zipcode ''2 Main St, Haymarket, VA 20135, USA'' = Some ''20135''"
    by (simp add: run_defs)
  note t = only_target_zipcode_kept [of two_candidates "[]" "[]" "''20136''" 0 0,
      THEN conjunct2, THEN spec, THEN mp, OF 1]
  then have 4: "\<exists>a. full_address ?A = Some a \<and> extract_zipcode a = Some ''20136''"
    by simp
  from 1 2 3 4 show ?thesis by (intro conjI)
qed

text \<open>
  Claim C4. The list that \<open>get_dealer_info\<close> returns is the list of the discovery events
  of the search, in the order of the log, with duplicates removed by place identifier.
  Removing duplicates leaves no two entries with one identifier, keeps every identifier,
  and keeps for each identifier the entry of its last discovery event.
\<close>

theorem one_entry_per_place_id:
  fixes G :: "('w, 'l) gmaps"
  shows "distinct (map place_id (unique_dealers dealers))
       \<and> place_id ` set (unique_dealers dealers) = place_id ` set dealers
       \<and> (\<forall>xs d ys. dealers = xs @ d # ys \<longrightarrow> place_id d \<notin> place_id ` set ys \<longrightarrow>
             d \<in> set (unique_dealers dealers))
       \<and> (get_dealer_info fuel (logged G) z (w, []) = (Some (Inr ds), (w', log)) \<longrightarrow>
             ds = unique_dealers (discovered z log) \<and> distinct (map place_id ds))"
proof (intro conjI allI impI)
  show "distinct (map place_id (unique_dealers dealers))"
    by (rule unique_dealers_distinct)
  show "place_id ` set (unique_dealers dealers) = place_id ` set dealers"
    by (rule unique_dealers_ids)
next
  fix xs d ys
  assume "dealers = xs @ d # ys" "place_id d \<notin> place_id ` set ys"
  then show "d \<in> set (unique_dealers dealers)"
    using unique_dealers_last [of d ys xs] by simp
next
  assume r: "get_dealer_info fuel (logged G) z (w, []) = (Some (Inr ds), (w', log))"
  from get_dealer_info_log(2) [OF r] obtain new where
    n: "log = Geocode_call z (fst (geocode G z w)) # new
        \<and> search_shows z (fst (geocode G z w)) new (Some (Inr ds))" ..
  from n have "ds = unique_dealers (discovered z new)"
    using search_shows_Inr(2) by blast
  with n show "ds = unique_dealers (discovered z log)"
    by (simp add: discovered_Geocode)
  then show "distinct (map place_id ds)"
    by (simp add: unique_dealers_distinct)
qed

text \<open>
  The theorem at a search with two discovery events for the place \<open>A\<close>, with the name
  \<open>Old Name\<close> in the first and \<open>New Name\<close> in the second: the result has one entry for
  \<open>A\<close>, with the later name.
\<close>

theorem one_entry_per_place_id_witness:
  "fst (get_dealer_info 0 (logged changing_details) ''20136'' (0, [])) =
     Some (Inr [\<lparr>business_name = Some ''New Name'',
                 full_address = Some ''1 Main St, Gainesville, VA 20136, USA'',
                 phone_number = None, website = None, place_id = ''A''\<rparr>])
   \<and> discovered ''20136'' (snd (snd (get_dealer_info 0 (logged changing_details) ''20136'' (0, [])))) =
       [\<lparr>business_name = Some ''Old Name'',
         full_address = Some ''1 Main St, Gainesville, VA 20136, USA'',
         phone_number = None, website = None, place_id = ''A''\<rparr>,
        \<lparr>business_name = Some ''New Name'',
         full_address = Some ''1 Main St, Gainesville, VA 20136, USA'',
         phone_number = None, website = None, place_id = ''A''\<rparr>]
   \<and> fst (get_dealer_info 0 (logged changing_details) ''20136'' (0, [])) =
       Some (Inr (unique_dealers (discovered ''20136''
         (snd (snd (get_dealer_info 0 (logged changing_details) ''20136'' (0, [])))))))"
proof -
  let ?run = "get_dealer_info 0 (logged changing_details) ''20136'' (0, [])"
  let ?new = "\<lparr>business_name = Some ''New Name'',
                 full_address = Some ''1 Main St, Gainesville, VA 20136, USA'',
                 phone_number = None, website = None, place_id = ''A''\<rparr>"
  have 1: "fst ?run = Some (Inr [?new])"
    by (simp add: changing_details_def run_defs List.map_filter_simps)
  have 2: "discovered ''20136'' (snd (snd ?run)) =
       [\<lparr>business_name = Some ''Old Name'',
         full_address = Some ''1 Main St, Gainesville, VA 20136, USA'',
         phone_number = None, website = None, place_id = ''A''\<rparr>, ?new]"
    by (simp add: changing_details_def run_defs List.map_filter_simps)
  have run: "?run = (Some (Inr [?new]), (fst (snd ?run), snd (snd ?run)))"
    unfolding prod_eq_iff fst_conv snd_conv using 1 by (intro conjI refl)
  note t = one_entry_per_place_id [of "[]" 0 changing_details "''20136''" 0 "[?new]"
         "fst (snd ?run)" "snd (snd ?run)",
         THEN conjunct2, THEN conjunct2, THEN conjunct2, THEN mp, OF run, THEN conjunct1]
  have 3: "fst ?run = Some (Inr (unique_dealers (discovered ''20136'' (snd (snd ?run)))))"
    unfolding t [symmetric] by (rule 1)
  from 1 2 3 show ?thesis by (intro conjI)
qed

text \<open>
  Claim C5. When geocoding returns the empty list, \<open>get_dealer_info\<close> fails with the
  message that no location was found for the zip code, whatever the fuel, produces no
  dealer list, and has made no request but the geocoding one.
\<close>

theorem no_geocode_match_fails:
  fixes G :: "('w, 'l) gmaps"
  assumes "geocode G z w = (Inr [], w1)"
  shows "get_dealer_info fuel G z w = (Some (Inl (Could_not_find_location z)), w1)
       \<and> get_dealer_info fuel (logged G) z (w, []) =
           (Some (Inl (Could_not_find_location z)), (w1, [Geocode_call z (Inr [])]))"
  using assms by (simp add: get_dealer_info_def logged_geocode)

theorem no_geocode_match_fails_witness:
  "geocode unresolvable ''99999'' 0 = (Inr [], 0)
   \<and> get_dealer_info 7 unresolvable ''99999'' 0 =
       (Some (Inl (Could_not_find_location ''99999'')), 0)"
proof -
  have g: "geocode unresolvable ''99999'' 0 = (Inr [], 0)"
    by (simp add: unresolvable_def sample_provider_def)
  from no_geocode_match_fails [OF g, of 7] g show ?thesis by simp
qed



text \<open>
  Claim C10. If the log of a search, however much fuel it had, shows a nearby-search or
  pagination request that raised, then the search has returned the failure result, with
  the exception of that request, which is the last request it made; it returns no
  dealer, whatever the earlier requests had found.
\<close>

theorem nearby_failure_is_fatal:
  fixes G :: "('w, 'l) gmaps"
  assumes "get_dealer_info fuel (logged G) z (w, []) = (r, (w', log))"
    and "list_ex nearby_raised log"
  shows "\<exists>e args. r = Some (Inl (Error_finding_dealer_information e))
           \<and> last log = Nearby_call args (Inl e)
           \<and> get_dealer_info fuel G z w = (Some (Inl (Error_finding_dealer_information e)), w')"
proof -
  from get_dealer_info_log(2) [OF assms(1)] obtain new where
    n: "log = Geocode_call z (fst (geocode G z w)) # new
        \<and> search_shows z (fst (geocode G z w)) new r" ..
  from n assms(2) have raised: "list_ex nearby_raised new" by simp
  then have ne: "new \<noteq> []" by auto
  from search_shows_raised [OF n [THEN conjunct2] raised] obtain e args where
    "r = Some (Inl (Error_finding_dealer_information e))" "last new = Nearby_call args (Inl e)"
    by blast
  with n ne get_dealer_info_log(1) [OF assms(1)] show ?thesis by simp
qed

text \<open>
  The theorem at a search whose first query finds the dealer \<open>A\<close>, in the target code, and
  whose request for the second page raises: the log holds the discovery of \<open>A\<close>, and the
  search returns the failure result.
\<close>

theorem nearby_failure_is_fatal_witness:
  "list_ex nearby_raised (snd (snd (get_dealer_info 1 (logged second_page_fails) ''20136'' (0, []))))
   \<and> map place_id (discovered ''20136''
        (snd (snd (get_dealer_info 1 (logged second_page_fails) ''20136'' (0, []))))) = [''A'']
   \<and> fst (get_dealer_info 1 (logged second_page_fails) ''20136'' (0, [])) =
       Some (Inl (Error_finding_dealer_information (Raised ''INVALID_REQUEST'')))"
proof -
  let ?run = "get_dealer_info 1 (logged second_page_fails) ''20136'' (0, [])"
  have 1: "list_ex nearby_raised (snd (snd ?run))"
    by (simp add: second_page_fails_def run_defs)
  have 2: "map place_id (discovered ''20136'' (snd (snd ?run))) = [''A'']"
    by (simp add: second_page_fails_def run_defs List.map_filter_simps)
  have 3: "last (snd (snd ?run)) = Nearby_call (Page_search () ''page2'') (Inl (Raised ''INVALID_REQUEST''))"
    by (simp add: second_page_fails_def run_defs)
  have run: "?run = (fst ?run, (fst (snd ?run), snd (snd ?run)))"
    unfolding prod_eq_iff fst_conv snd_conv by (intro conjI refl)
  from nearby_failure_is_fatal [OF run 1] obtain e args where
    r: "fst ?run = Some (Inl (Error_finding_dealer_information e))"
    and l: "last (snd (snd ?run)) = Nearby_call args (Inl e)" by blast
  from l have "e = Raised ''INVALID_REQUEST''" unfolding 3 by simp
  with r have 4: "fst ?run = Some (Inl (Error_finding_dealer_information (Raised ''INVALID_REQUEST'')))"
    by (simp only:)
  from 1 2 4 show ?thesis by (intro conjI)
qed

text \<open>
  Claim C6, as the code has it. Let geocoding succeed and pagination be bounded. Then there
  is an amount of fuel from which on every search returns, and returns the empty list as
  its success value, whenever its log shows no nearby-search or pagination request that
  raised and no detail fetch with the target code. The empty list is not the failure
  result.
\<close>

theorem empty_result_is_success:
  fixes G :: "('w, 'l) gmaps"
  assumes "pagination_bounded G m"
    and "geocode G z w = (Inr (Located loc # rest), w1)"
  shows "\<exists>n. \<forall>fuel\<ge>n. \<forall>r w' log.
           get_dealer_info fuel (logged G) z (w, []) = (r, (w', log)) \<longrightarrow>
           \<not> list_ex nearby_raised log \<longrightarrow> discovered z log = [] \<longrightarrow>
           r = Some (Inr []) \<and> (\<forall>f. r \<noteq> Some (Inl f))
           \<and> get_dealer_info fuel G z w = (Some (Inr []), w')"
proof -
  from get_dealer_info_returns [OF assms(1), of z w] obtain n where
    n: "\<forall>fuel\<ge>n. fst (get_dealer_info fuel G z w) \<noteq> None" ..
  have "\<forall>fuel\<ge>n. \<forall>r w' log.
           get_dealer_info fuel (logged G) z (w, []) = (r, (w', log)) \<longrightarrow>
           \<not> list_ex nearby_raised log \<longrightarrow> discovered z log = [] \<longrightarrow>
           r = Some (Inr []) \<and> (\<forall>f. r \<noteq> Some (Inl f))
           \<and> get_dealer_info fuel G z w = (Some (Inr []), w')"
  proof (intro allI impI)
    fix fuel r w' and log :: "'l event list"
    assume fuel: "n \<le> fuel"
      and run: "get_dealer_info fuel (logged G) z (w, []) = (r, (w', log))"
      and nr: "\<not> list_ex nearby_raised log" and nd: "discovered z log = []"
    from get_dealer_info_log(1) [OF run] have g: "get_dealer_info fuel G z w = (r, w')" .
    with n fuel have "r \<noteq> None" by auto
    from get_dealer_info_log(2) [OF run] obtain new where
      new: "log = Geocode_call z (fst (geocode G z w)) # new
            \<and> search_shows z (fst (geocode G z w)) new r" ..
    from new assms(2) have s: "search_shows z (Inr (Located loc # rest)) new r" by simp
    from new nr have nr': "\<not> list_ex nearby_raised new" by simp
    from new nd have nd': "discovered z new = []" by (simp add: discovered_Geocode)
    from search_shows_returned [OF s \<open>r \<noteq> None\<close> nr'] nd'
    have "r = Some (Inr [])" by (simp add: unique_dealers_Nil)
    with g show "r = Some (Inr []) \<and> (\<forall>f. r \<noteq> Some (Inl f))
           \<and> get_dealer_info fuel G z w = (Some (Inr []), w')" by simp
  qed
  then show ?thesis by (rule exI)
qed

text \<open>
  The theorem at the target 22030 with the candidates \<open>A\<close>, in 20136, and \<open>B\<close>, in 20135:
  the search returns the empty list.
\<close>

theorem empty_result_is_success_witness:
  "geocode two_candidates ''22030'' 0 = (Inr [Located ()], 0)
   \<and> \<not> list_ex nearby_raised
         (snd (snd (get_dealer_info 0 (logged two_candidates) ''22030'' (0, []))))
   \<and> discovered ''22030''
         (snd (snd (get_dealer_info 0 (logged two_candidates) ''22030'' (0, [])))) = []
   \<and> fst (get_dealer_info 0 (logged two_candidates) ''22030'' (0, [])) = Some (Inr [])"
proof -
  let ?run = "get_dealer_info 0 (logged two_candidates) ''22030'' (0, [])"
  have b: "pagination_bounded two_candidates (\<lambda>w. 0)"
    by (auto simp: pagination_bounded_def two_candidates_def sample_provider_def hits_def
             split: nearby_args.splits)
  have g: "geocode two_candidates ''22030'' 0 = (Inr [Located ()], 0)"
    by (simp add: two_candidates_def sample_provider_def)
  have 1: "\<not> list_ex nearby_raised (snd (snd ?run))"
    by (simp add: two_candidates_def run_defs)
  have 2: "discovered ''22030'' (snd (snd ?run)) = []"
    by (simp add: two_candidates_def run_defs List.map_filter_simps)
  have 3: "fst ?run \<noteq> None"
    by (simp add: two_candidates_def run_defs)
  from empty_result_is_success [OF b g] obtain n where
    n: "\<forall>fuel\<ge>n. \<forall>r w' log.
           get_dealer_info fuel (logged two_candidates) ''22030'' (0, []) = (r, (w', log)) \<longrightarrow>
           \<not> list_ex nearby_raised log \<longrightarrow> discovered ''22030'' log = [] \<longrightarrow>
           r = Some (Inr []) \<and> (\<forall>f. r \<noteq> Some (Inl f))
           \<and> get_dealer_info fuel two_candidates ''22030'' 0 = (Some (Inr []), w')" ..
  have "get_dealer_info (0 + n) (logged two_candidates) ''22030'' (0, []) = ?run"
    by (rule get_dealer_info_more_fuel [OF 3])
  then have run: "get_dealer_info n (logged two_candidates) ''22030'' (0, []) =
      (fst ?run, (fst (snd ?run), snd (snd ?run)))"
    by (simp only: add_0 prod.collapse)
  from n [rule_format, of n, OF le_refl run 1 2] have 4: "fst ?run = Some (Inr [])"
    by (rule conjunct1)
  from g 1 2 4 show ?thesis by (intro conjI)
qed

text \<open>
  Claim C6 as the specification words it fails: geocoding succeeds, no place has the
  target code (no place is found at all), and the first nearby search raises. The search
  returns the failure result, not the empty list.
\<close>

theorem nearby_error_not_empty_result:
  "geocode nearby_down ''20136'' 0 = (Inr [Located ()], 0)
   \<and> discovered ''20136''
        (snd (snd (get_dealer_info 0 (logged nearby_down) ''20136'' (0, [])))) = []
   \<and> get_dealer_info 0 nearby_down ''20136'' 0 =
        (Some (Inl (Error_finding_dealer_information (Raised ''timeout''))), 0)
   \<and> fst (get_dealer_info 0 nearby_down ''20136'' 0) \<noteq> Some (Inr [])"
  by (simp add: nearby_down_def run_defs List.map_filter_simps)


section \<open>Properties of the website functions\<close>

lemma logged_web_simps:
  "fetch_url (logged_web W) url (w, log) =
     (fst (fetch_url W url w), (snd (fetch_url W url w), log @ [Fetch_url_call url (fst (fetch_url W url w))]))"
  "requests_get (logged_web W) url t (w, log) =
     (fst (requests_get W url t w),
      (snd (requests_get W url t w), log @ [Get_call url t (fst (requests_get W url t w))]))"
  "chat_completion (logged_web W) c (w, log) =
     (fst (chat_completion W c w),
      (snd (chat_completion W c w), log @ [Chat_call c (fst (chat_completion W c w))]))"
  "trafilatura_extract (logged_web W) = trafilatura_extract W"
  "stripped_strings (logged_web W) = stripped_strings W"
  "json_loads (logged_web W) = json_loads W"
  by (simp_all add: logged_web_def split: prod.split)

lemma website_text_no_download:
  assumes "fetch_url W url w = (Inr d, w1)" "d = None \<or> d = Some []"
  shows "website_text W url w = (Inl (Could_not_download url), w1)"
  using assms by (auto simp: website_text_def)

lemma website_text_fallback:
  assumes "fetch_url W url w = (Inr (Some d), w1)" "d \<noteq> []"
    and "trafilatura_extract W d = Inr t" "t = None \<or> t = Some []"
    and "requests_get W url 10 w1 = (Inr body, w2)"
  shows "website_text W url w =
           ((if join_spaces (stripped_strings W [''script'', ''style''] body) = []
             then Inl Could_not_extract_content
             else Inr (join_spaces (stripped_strings W [''script'', ''style''] body))), w2)"
  using assms by (auto simp: website_text_def)

lemma website_text_primary:
  assumes "fetch_url W url w = (Inr (Some d), w1)" "d \<noteq> []"
    and "trafilatura_extract W d = Inr (Some t)" "t \<noteq> []"
  shows "website_text W url w = (Inr t, w1)"
  using assms by (simp add: website_text_def)

lemma logged_fetch_url_eq:
  "fetch_url W url w = (r, w1) \<Longrightarrow>
   fetch_url (logged_web W) url (w, log) = (r, (w1, log @ [Fetch_url_call url r]))"
  by (simp add: logged_web_simps)

lemma logged_requests_get_eq:
  "requests_get W url t w = (r, w1) \<Longrightarrow>
   requests_get (logged_web W) url t (w, log) = (r, (w1, log @ [Get_call url t r]))"
  by (simp add: logged_web_simps)

lemma website_text_first_request:
  "\<exists>rest. snd (snd (website_text (logged_web W) url (w, log))) =
           log @ Fetch_url_call url (fst (fetch_url W url w)) # rest"
proof -
  obtain r w1 where f: "fetch_url W url w = (r, w1)" by (cases "fetch_url W url w")
  note fl = logged_fetch_url_eq [OF f, of log]
  show ?thesis
  proof (cases r)
    case (Inl e)
    with fl f show ?thesis by (simp add: website_text_def)
  next
    case (Inr d)
    show ?thesis
    proof (cases "d = None \<or> d = Some []")
      case True
      from website_text_no_download [OF fl [unfolded Inr] True] f Inr show ?thesis by simp
    next
      case False
      then obtain doc where d: "d = Some doc" "doc \<noteq> []" by (cases d) auto
      show ?thesis
      proof (cases "trafilatura_extract W doc")
        case (Inl e)
        with fl f Inr d show ?thesis by (simp add: website_text_def logged_web_simps)
      next
        case x: (Inr t)
        show ?thesis
        proof (cases "t = None \<or> t = Some []")
          case False
          then obtain tx where t: "t = Some tx" "tx \<noteq> []" by (cases t) auto
          have "trafilatura_extract (logged_web W) doc = Inr (Some tx)"
            using x t by (simp add: logged_web_simps)
          from website_text_primary [OF fl [unfolded Inr d(1)] d(2) this t(2)] f Inr d
          show ?thesis by simp
        next
          case True
          obtain r2 w2 where g: "requests_get W url 10 w1 = (r2, w2)"
            by (cases "requests_get W url 10 w1")
          note gl = logged_requests_get_eq [OF g, of "log @ [Fetch_url_call url r]"]
          have xl: "trafilatura_extract (logged_web W) doc = Inr t"
            using x by (simp add: logged_web_simps)
          show ?thesis
          proof (cases r2)
            case (Inl e)
            with fl gl xl True f Inr d show ?thesis
              by (auto simp: website_text_def)
          next
            case y: (Inr body)
            from website_text_fallback [OF fl [unfolded Inr d(1)] d(2) xl True
                   gl [unfolded y Inr d(1)]] f Inr d
            show ?thesis by (simp add: logged_web_simps)
          qed
        qed
      qed
    qed
  qed
qed


section \<open>Claims about the website functions\<close>

text \<open>
  Claim C8, as the code has it. The download of the primary strategy is the first request.
  When it returns a document from which the primary extraction gets no text, one GET
  request with a timeout of 10 seconds follows, and the text is that of the document it
  returns: its strings outside script and style elements, joined by single spaces; when
  that text is empty too, the function returns \<open>None\<close> by its second \<open>return\<close>, not through
  the exception handler. When the download itself returns nothing, the function returns
  \<open>None\<close> at once and makes no GET request.
\<close>

theorem fallback_only_after_download:
  fixes W :: "'w web"
  shows "(\<exists>rest. snd (snd (website_text (logged_web W) url (w, []))) =
            Fetch_url_call url (fst (fetch_url W url w)) # rest)
       \<and> (fetch_url W url w = (Inr (Some d), w1) \<longrightarrow> d \<noteq> [] \<longrightarrow>
          trafilatura_extract W d = Inr t \<longrightarrow> (t = None \<or> t = Some []) \<longrightarrow>
          requests_get W url 10 w1 = (Inr body, w2) \<longrightarrow>
            website_text (logged_web W) url (w, []) =
              ((if join_spaces (stripped_strings W [''script'', ''style''] body) = []
                then Inl Could_not_extract_content
                else Inr (join_spaces (stripped_strings W [''script'', ''style''] body))),
               (w2, [Fetch_url_call url (Inr (Some d)), Get_call url 10 (Inr body)])))
       \<and> (fetch_url W url w = (Inr d0, w1) \<longrightarrow> (d0 = None \<or> d0 = Some []) \<longrightarrow>
            website_text (logged_web W) url (w, []) =
              (Inl (Could_not_download url), (w1, [Fetch_url_call url (Inr d0)])))
       \<and> (website_text W url w = (Inl f, w') \<longrightarrow> extract_website_info W url w = (Inl f, w'))
       \<and> join_spaces [a, b, c] = a @ '' '' @ b @ '' '' @ c"
proof (intro conjI impI)
  show "\<exists>rest. snd (snd (website_text (logged_web W) url (w, []))) =
            Fetch_url_call url (fst (fetch_url W url w)) # rest"
    using website_text_first_request [of W url w "[]"] by simp
next
  assume a: "fetch_url W url w = (Inr (Some d), w1)" "d \<noteq> []"
    "trafilatura_extract W d = Inr t" "t = None \<or> t = Some []"
    "requests_get W url 10 w1 = (Inr body, w2)"
  have x: "trafilatura_extract (logged_web W) d = Inr t"
    using a(3) by (simp add: logged_web_simps)
  from website_text_fallback [OF logged_fetch_url_eq [OF a(1), of "[]"] a(2) x a(4)
         logged_requests_get_eq [OF a(5)]]
  show "website_text (logged_web W) url (w, []) =
              ((if join_spaces (stripped_strings W [''script'', ''style''] body) = []
                then Inl Could_not_extract_content
                else Inr (join_spaces (stripped_strings W [''script'', ''style''] body))),
               (w2, [Fetch_url_call url (Inr (Some d)), Get_call url 10 (Inr body)]))"
    by (simp add: logged_web_simps)
next
  assume a: "fetch_url W url w = (Inr d0, w1)" "d0 = None \<or> d0 = Some []"
  from website_text_no_download [OF logged_fetch_url_eq [OF a(1), of "[]"] a(2)]
  show "website_text (logged_web W) url (w, []) =
              (Inl (Could_not_download url), (w1, [Fetch_url_call url (Inr d0)]))"
    by simp
next
  assume "website_text W url w = (Inl f, w')"
  then show "extract_website_info W url w = (Inl f, w')"
    by (simp add: extract_website_info_def)
next
  show "join_spaces [a, b, c] = a @ '' '' @ b @ '' '' @ c" by simp
qed

text \<open>
  The theorem at a page that is downloaded and from which the primary extraction gets
  nothing: the GET request follows, and the text is \<open>Hello World\<close>.
\<close>

theorem fallback_only_after_download_witness:
  "website_text (logged_web
       (sample_web (Some ''<html/>'') None ''<p>Hello</p><p>World</p>'' [''Hello'', ''World''] ''{}''))
     ''http://dealer.example'' (0, []) =
   (Inr ''Hello World'',
    (2, [Fetch_url_call ''http://dealer.example'' (Inr (Some ''<html/>'')),
         Get_call ''http://dealer.example'' 10 (Inr ''<p>Hello</p><p>World</p>'')]))"
proof -
  let ?W = "sample_web (Some ''<html/>'') None ''<p>Hello</p><p>World</p>'' [''Hello'', ''World''] ''{}''"
  have 1: "fetch_url ?W ''http://dealer.example'' 0 = (Inr (Some ''<html/>''), 1)"
    by (simp add: sample_web_def)
  have 2: "''<html/>'' \<noteq> []" by simp
  have 3: "trafilatura_extract ?W ''<html/>'' = Inr None" by (simp add: sample_web_def)
  have 4: "(None :: string option) = None \<or> None = Some []" by simp
  have 5: "requests_get ?W ''http://dealer.example'' 10 1 = (Inr ''<p>Hello</p><p>World</p>'', 2)"
    by (simp add: sample_web_def)
  note t = fallback_only_after_download [of ?W "''http://dealer.example''" 0 "''<html/>''" 1 None
      "''<p>Hello</p><p>World</p>''" 2,
      THEN conjunct2, THEN conjunct1, THEN mp, OF 1, THEN mp, OF 2, THEN mp, OF 3,
      THEN mp, OF 4, THEN mp, OF 5]
  have "join_spaces (stripped_strings ?W [''script'', ''style''] ''<p>Hello</p><p>World</p>'') =
        ''Hello World''" by (simp add: sample_web_def)
  with t show ?thesis by simp
qed

text \<open>
  Claim C8 as the specification words it fails: the download returns nothing, so the
  primary strategy has no text, and the function returns \<open>None\<close> without a GET request,
  which would have given the text \<open>Hello World\<close>.
\<close>

theorem no_fallback_without_download:
  "website_text (logged_web
       (sample_web None None ''<p>Hello</p><p>World</p>'' [''Hello'', ''World''] ''{}''))
     ''http://dealer.example'' (0, []) =
   (Inl (Could_not_download ''http://dealer.example''),
    (1, [Fetch_url_call ''http://dealer.example'' (Inr None)]))
   \<and> requests_get (sample_web None None ''<p>Hello</p><p>World</p>'' [''Hello'', ''World''] ''{}'')
        ''http://dealer.example'' 10 1 = (Inr ''<p>Hello</p><p>World</p>'', 2)
   \<and> join_spaces (stripped_strings
        (sample_web None None ''<p>Hello</p><p>World</p>'' [''Hello'', ''World''] ''{}'')
        [''script'', ''style''] ''<p>Hello</p><p>World</p>'') = ''Hello World''"
  by (simp add: website_text_def logged_web_def sample_web_def)

text \<open>
  Claim C9, as the code has it. When \<open>json.loads\<close> raises on the content of the response,
  and when the chat completion itself raises, the function returns \<open>None\<close> through its
  exception handler: no exception leaves it. When \<open>json.loads\<close> returns a value, the
  function returns that value, whatever its shape.
\<close>

theorem unparsable_response_is_failure:
  fixes W :: "'w web"
  shows "(chat_completion W (take 4000 text) w = (Inr content, w1) \<longrightarrow>
            json_loads W content = Inl e \<longrightarrow>
            analyze_text W text w = (Inl (Error_analyzing_website e), w1))
       \<and> (chat_completion W (take 4000 text) w = (Inl e, w1) \<longrightarrow>
            analyze_text W text w = (Inl (Error_analyzing_website e), w1))
       \<and> (chat_completion W (take 4000 text) w = (Inr content, w1) \<longrightarrow>
            json_loads W content = Inr v \<longrightarrow>
            analyze_text W text w = (Inr v, w1))
       \<and> (website_text W url w0 = (Inr text, w) \<longrightarrow>
            extract_website_info W url w0 = analyze_text W text w)"
  by (simp add: analyze_text_def extract_website_info_def)

text \<open>
  The theorem at a response that is not JSON: the function returns \<open>None\<close> with the error of
  \<open>json.loads\<close>.
\<close>

theorem unparsable_response_is_failure_witness:
  "json_loads (sample_web (Some ''<html/>'') (Some ''Used cars'') [] [] ''I am sorry'')
     ''I am sorry'' = Inl (Raised ''Expecting value: line 1 column 1 (char 0)'')
   \<and> extract_website_info
        (sample_web (Some ''<html/>'') (Some ''Used cars'') [] [] ''I am sorry'')
        ''http://dealer.example'' 0 =
      (Inl (Error_analyzing_website (Raised ''Expecting value: line 1 column 1 (char 0)'')), 2)"
proof -
  let ?W = "sample_web (Some ''<html/>'') (Some ''Used cars'') [] [] ''I am sorry''"
  have 1: "chat_completion ?W (take 4000 ''Used cars'') 1 = (Inr ''I am sorry'', 2)"
    by (simp add: sample_web_def)
  have 2: "json_loads ?W ''I am sorry'' = Inl (Raised ''Expecting value: line 1 column 1 (char 0)'')"
    by (simp add: sample_web_def)
  have 3: "website_text ?W ''http://dealer.example'' 0 = (Inr ''Used cars'', 1)"
    by (simp add: website_text_def sample_web_def)
  note t = unparsable_response_is_failure [of ?W "''Used cars''" 1 "''I am sorry''" 2
      "Raised ''Expecting value: line 1 column 1 (char 0)''" _ "''http://dealer.example''" 0]
  note a = t [THEN conjunct1, THEN mp, OF 1, THEN mp, OF 2]
  note b = t [THEN conjunct2, THEN conjunct2, THEN conjunct2, THEN mp, OF 3]
  from 2 a b show ?thesis by simp
qed

text \<open>
  Claim C9 as the specification words it fails: the response \<open>[1, 2]\<close> is JSON but not an
  object, and the function returns the list as the analysis, not a failure.
\<close>

theorem non_object_response_is_returned:
  "json_loads (sample_web (Some ''<html/>'') (Some ''Used cars'') [] [] ''[1, 2]'') ''[1, 2]'' =
     Inr (PList [PInt 1, PInt 2])
   \<and> extract_website_info
        (sample_web (Some ''<html/>'') (Some ''Used cars'') [] [] ''[1, 2]'')
        ''http://dealer.example'' 0 =
      (Inr (PList [PInt 1, PInt 2]), 2)"
  by (simp add: extract_website_info_def website_text_def analyze_text_def sample_web_def)


end
